theory Spec2Isabelle
  imports Complex_Main "HOL-Library.Word"
begin

section \<open>JavaScript values used by the typewriter widget\<close>

text \<open>
  The program is \<^verbatim>\<open>src/js/typewriter.js\<close>, the class \<^verbatim>\<open>ModernTypewriter\<close>.
  A JavaScript string is a sequence of UTF-16 code units; \<^verbatim>\<open>length\<close>, indexing,
  \<^verbatim>\<open>substring\<close>, \<^verbatim>\<open>split\<close> and \<^verbatim>\<open>trim\<close> all work on code units.  Numbers that
  the widget handles (delays, widths, limits) are modelled as exact rationals: the
  rounding of IEEE doubles is not part of the model, so \<open>baseSpeed * 1.2\<close> below
  is the exact product.  Option values that are not numbers are outside the model.
\<close>

type_synonym codeunit = "16 word"
type_synonym jsstring = "codeunit list"
type_synonym number = rat

definition js :: "string \<Rightarrow> jsstring" where
  "js s = map (\<lambda>c. word_of_nat (of_char c)) s"

definition comma :: codeunit where
  "comma = 0x2C"

definition ellipsis :: jsstring where
  "ellipsis = [0x2E, 0x2E, 0x2E]"

text \<open>
  \<^verbatim>\<open>String.prototype.trim\<close> strips WhiteSpace and LineTerminator code points:
  TAB, LF, VT, FF, CR, SP, NBSP, U+1680, U+2000..U+200A, U+2028, U+2029, U+202F,
  U+205F, U+3000 and U+FEFF.
\<close>

definition isWhiteSpace :: "codeunit \<Rightarrow> bool" where
  "isWhiteSpace c \<longleftrightarrow>
     c \<in> set [0x09, 0x0A, 0x0B, 0x0C, 0x0D, 0x20, 0xA0, 0x1680,
               0x2028, 0x2029, 0x202F, 0x205F, 0x3000, 0xFEFF]
     \<or> (0x2000 \<le> c \<and> c \<le> 0x200A)"

text \<open>The character class \<^verbatim>\<open>/[.,!?;:]/\<close> tested on a one-unit string.\<close>

definition isPunctuation :: "codeunit \<Rightarrow> bool" where
  "isPunctuation c \<longleftrightarrow> c \<in> set [0x2E, 0x2C, 0x21, 0x3F, 0x3B, 0x3A]"

text \<open>\<^verbatim>\<open>s.split(sep)\<close> for a one-unit separator: never empty, \<^verbatim>\<open>"".split(",")\<close> is \<^verbatim>\<open>[""]\<close>.\<close>

fun js_split :: "codeunit \<Rightarrow> jsstring \<Rightarrow> jsstring list" where
  "js_split sep [] = [[]]"
| "js_split sep (c # cs) =
     (if c = sep then [] # js_split sep cs
      else (case js_split sep cs of
              p # ps \<Rightarrow> (c # p) # ps
            | [] \<Rightarrow> [[c]]))"

definition js_trim :: "jsstring \<Rightarrow> jsstring" where
  "js_trim s = rev (dropWhile isWhiteSpace (rev (dropWhile isWhiteSpace s)))"

text \<open>
  \<^verbatim>\<open>s.substring(0, n)\<close> for an integer \<open>n\<close>: the end is clamped to \<open>[0, length]\<close>,
  so a negative \<open>n\<close> gives the empty string and a large one the whole string.
\<close>

definition substring0 :: "jsstring \<Rightarrow> int \<Rightarrow> jsstring" where
  "substring0 s n = take (nat n) s"

text \<open>\<^verbatim>\<open>word[i]\<close>: \<^verbatim>\<open>undefined\<close> (here \<open>None\<close>) outside the string.\<close>

definition charAt :: "jsstring \<Rightarrow> int \<Rightarrow> codeunit option" where
  "charAt s i = (if 0 \<le> i \<and> i < int (length s) then Some (s ! nat i) else None)"

text \<open>Joining with a separator, the inverse of \<open>js_split\<close>; used in statements only.\<close>

fun js_join :: "codeunit \<Rightarrow> jsstring list \<Rightarrow> jsstring" where
  "js_join sep [] = []"
| "js_join sep [p] = p"
| "js_join sep (p # q # ps) = p @ sep # js_join sep (q # ps)"

section \<open>The widget and its environment\<close>

record config =
  typingSpeed :: number
  deletingSpeed :: number
  pauseDuration :: number
  cursorChar :: jsstring
  cursorBlinkSpeed :: number
  responsiveBreakpoint :: number
  maxWordLength :: number

text \<open>The caller's \<^verbatim>\<open>options\<close> argument: each key is present or not.\<close>

record overrides =
  typingSpeed_opt :: "number option"
  deletingSpeed_opt :: "number option"
  pauseDuration_opt :: "number option"
  cursorChar_opt :: "jsstring option"
  cursorBlinkSpeed_opt :: "number option"
  responsiveBreakpoint_opt :: "number option"
  maxWordLength_opt :: "number option"

text \<open>
  A \<^verbatim>\<open>.sr-only\<close> element below the host, as \<^verbatim>\<open>querySelector('.sr-only')\<close> and
  \<^verbatim>\<open>removeChild\<close> see it: a direct child of the host, or an element nested deeper.
\<close>

datatype srnode = DirectChild | Nested

text \<open>
  The host container: its \<^verbatim>\<open>data-words\<close> attribute, the text content of its
  \<^verbatim>\<open>.typewriter-text\<close> child (\<open>None\<close> when \<^verbatim>\<open>querySelector\<close> returns \<^verbatim>\<open>null\<close>),
  whether it has a \<^verbatim>\<open>.typewriter-cursor\<close> child, its class list, and the \<^verbatim>\<open>.sr-only\<close>
  elements the page itself put below it, in document order (an element inside another
  \<^verbatim>\<open>.sr-only\<close> element is not listed: it is never the first match while the outer one is
  there, and it goes when the outer one is removed).
\<close>

record element =
  dataWords :: "jsstring option"
  textNode :: "jsstring option"
  cursorNode :: bool
  classes :: "string set"
  srOnly :: "srnode list"

text \<open>
  The exceptions the widget can raise: a \<^verbatim>\<open>TypeError\<close> from a member access on
  \<^verbatim>\<open>undefined\<close> or \<^verbatim>\<open>null\<close>, and the \<^verbatim>\<open>NotFoundError\<close> that \<^verbatim>\<open>removeChild\<close> raises for
  a node that is not a child of the receiver.
\<close>

datatype error = TypeError | NotFoundError

datatype callback = CallStart | CallAnimate | CallResize

text \<open>
  One widget together with the part of the page it touches.  \<open>textElement\<close> holds
  the rendered \<^verbatim>\<open>textContent\<close>; \<open>timeouts\<close> are the pending \<^verbatim>\<open>setTimeout\<close>
  continuations with their delays, oldest first; \<open>frames\<close> counts the
  \<^verbatim>\<open>requestAnimationFrame\<close> handles handed out; \<open>listening\<close> says whether the
  resize listener is attached; \<open>srNodes\<close> lists the \<^verbatim>\<open>.sr-only\<close> elements below the host;
  \<open>console\<close> collects the warnings.  Style and ARIA attributes are not modelled.
\<close>

record widget =
  words :: "jsstring list"
  originalWords :: "jsstring list option"
  currentIndex :: nat
  charIndex :: int
  isDeleting :: bool
  isRunning :: bool
  animationId :: "nat option"
  resizeHandler :: bool
  options :: config
  textElement :: "jsstring option"
  cursorElement :: bool
  timeouts :: "(callback \<times> number) list"
  frames :: nat
  listening :: bool
  srNodes :: "srnode list"
  classList :: "string set"
  console :: "string list"
  innerWidth :: number

type_synonym result = "(error \<times> widget) + widget"

section \<open>Configuration and parsing\<close>

text \<open>\<^verbatim>\<open>parseWords\<close>, lines 50-53; \<^verbatim>\<open>!dataString\<close> holds for the empty string.\<close>

definition parseWords :: "jsstring \<Rightarrow> jsstring list" where
  "parseWords dataString =
     (if dataString = [] then []
      else filter (\<lambda>word. length word > 0) (map js_trim (js_split comma dataString)))"

text \<open>\<^verbatim>\<open>element.dataset.words || ''\<close>, line 9: an absent attribute counts as empty.\<close>

definition dataset_words :: "element \<Rightarrow> jsstring" where
  "dataset_words e = (case dataWords e of None \<Rightarrow> [] | Some d \<Rightarrow> d)"

text \<open>The defaults with the caller's keys spread over them, lines 18-27.\<close>

definition mergeOptions :: "overrides \<Rightarrow> config" where
  "mergeOptions ov =
     \<lparr> typingSpeed = (case typingSpeed_opt ov of None \<Rightarrow> 100 | Some v \<Rightarrow> v),
       deletingSpeed = (case deletingSpeed_opt ov of None \<Rightarrow> 50 | Some v \<Rightarrow> v),
       pauseDuration = (case pauseDuration_opt ov of None \<Rightarrow> 2000 | Some v \<Rightarrow> v),
       cursorChar = (case cursorChar_opt ov of None \<Rightarrow> [0x7C] | Some v \<Rightarrow> v),
       cursorBlinkSpeed = (case cursorBlinkSpeed_opt ov of None \<Rightarrow> 500 | Some v \<Rightarrow> v),
       responsiveBreakpoint = (case responsiveBreakpoint_opt ov of None \<Rightarrow> 768 | Some v \<Rightarrow> v),
       maxWordLength = (case maxWordLength_opt ov of None \<Rightarrow> 20 | Some v \<Rightarrow> v) \<rparr>"

section \<open>Responsive adapter\<close>

text \<open>
  Lines 90-133.  \<open>truncateWord\<close> is the function mapped over the list in
  \<^verbatim>\<open>truncateLongWords\<close>; \<^verbatim>\<open>substring(0, maxWordLength)\<close> truncates a fractional limit
  and clamps a negative one to 0, which is \<open>nat \<lfloor>m\<rfloor>\<close> characters.  The cache
  \<^verbatim>\<open>originalWords\<close> is \<^verbatim>\<open>undefined\<close> (here \<open>None\<close>) until the first truncation.
\<close>

definition truncateWord :: "number \<Rightarrow> jsstring \<Rightarrow> jsstring" where
  "truncateWord m word =
     (if of_nat (length word) > m then substring0 word \<lfloor>m\<rfloor> @ ellipsis else word)"

definition truncateLongWords :: "widget \<Rightarrow> widget" where
  "truncateLongWords w =
     (let w1 = (case originalWords w of
                  None \<Rightarrow> w\<lparr>originalWords := Some (words w)\<rparr>
                | Some _ \<Rightarrow> w)
      in w1\<lparr>words := map (truncateWord (maxWordLength (options w1))) (words w1)\<rparr>)"

definition restoreOriginalWords :: "widget \<Rightarrow> widget" where
  "restoreOriginalWords w =
     (case originalWords w of
        Some ows \<Rightarrow> w\<lparr>words := ows\<rparr>
      | None \<Rightarrow> w)"

definition adjustTimingForMobile :: "widget \<Rightarrow> widget" where
  "adjustTimingForMobile w =
     w\<lparr>options := (options w)\<lparr>typingSpeed := 80, deletingSpeed := 40, pauseDuration := 1500\<rparr>\<rparr>"

definition adjustTimingForDesktop :: "widget \<Rightarrow> widget" where
  "adjustTimingForDesktop w =
     w\<lparr>options := (options w)\<lparr>typingSpeed := 100, deletingSpeed := 50, pauseDuration := 2000\<rparr>\<rparr>"

definition handleResponsive :: "widget \<Rightarrow> widget" where
  "handleResponsive w =
     (let isMobile = innerWidth w < responsiveBreakpoint (options w)
      in if isMobile then adjustTimingForMobile (truncateLongWords w)
         else adjustTimingForDesktop (restoreOriginalWords w))"

section \<open>Animation state machine\<close>

text \<open>
  Lines 135-205.  \<open>setTimeout\<close> appends a pending continuation;
  \<open>requestAnimationFrame\<close> hands out the next handle (handles start at 1, so a stored
  handle is truthy) and its callback does nothing.
\<close>

definition setTimeout :: "callback \<Rightarrow> number \<Rightarrow> widget \<Rightarrow> widget" where
  "setTimeout cb delay w = w\<lparr>timeouts := timeouts w @ [(cb, delay)]\<rparr>"

definition requestAnimationFrame :: "widget \<Rightarrow> widget" where
  "requestAnimationFrame w = w\<lparr>animationId := Some (Suc (frames w)), frames := Suc (frames w)\<rparr>"

definition calculateTypingSpeed :: "config \<Rightarrow> jsstring \<Rightarrow> int \<Rightarrow> number" where
  "calculateTypingSpeed opts word i =
     (let baseSpeed = typingSpeed opts
      in if i = 0 \<or> i = int (length word) - 1 then baseSpeed * 1.2
         else if (case charAt word (i - 1) of
                    None \<Rightarrow> False
                  | Some prevChar \<Rightarrow> isPunctuation prevChar)
              then baseSpeed * 1.5
              else baseSpeed)"

text \<open>
  One tick.  \<^verbatim>\<open>currentWord\<close> is \<^verbatim>\<open>undefined\<close> when \<open>currentIndex\<close> is outside the
  list, and \<^verbatim>\<open>textElement\<close> may be \<^verbatim>\<open>null\<close>; either way the first statement of the
  chosen branch throws a \<^verbatim>\<open>TypeError\<close> before anything is changed.
\<close>

definition animate :: "widget \<Rightarrow> result" where
  "animate w =
     (if \<not> isRunning w then Inr w
      else if length (words w) \<le> currentIndex w \<or> textElement w = None then Inl (TypeError, w)
      else
        let currentWord = words w ! currentIndex w
        in Inr (requestAnimationFrame
          (if isDeleting w then
             let w1 = w\<lparr>textElement := Some (substring0 currentWord (charIndex w - 1)),
                        charIndex := charIndex w - 1\<rparr>
             in if charIndex w1 = 0
                then setTimeout CallAnimate 300
                       (w1\<lparr>isDeleting := False,
                           currentIndex := (currentIndex w1 + 1) mod length (words w1)\<rparr>)
                else setTimeout CallAnimate (deletingSpeed (options w1)) w1
           else
             let w1 = w\<lparr>textElement := Some (substring0 currentWord (charIndex w + 1)),
                        charIndex := charIndex w + 1\<rparr>
             in if charIndex w1 = int (length currentWord)
                then setTimeout CallAnimate (pauseDuration (options w1)) (w1\<lparr>isDeleting := True\<rparr>)
                else setTimeout CallAnimate
                       (calculateTypingSpeed (options w1) currentWord (charIndex w1)) w1)))"

definition start :: "widget \<Rightarrow> result" where
  "start w =
     (if isRunning w then Inr w
      else animate (w\<lparr>isRunning := True,
                      classList := insert ''typewriter-active'' (classList w)\<rparr>))"

definition stop :: "widget \<Rightarrow> widget" where
  "stop w =
     (let w1 = w\<lparr>isRunning := False, classList := classList w - {''typewriter-active''}\<rparr>
      in case animationId w1 of
           Some _ \<Rightarrow> w1\<lparr>animationId := None\<rparr>
         | None \<Rightarrow> w1)"

text \<open>
  \<^verbatim>\<open>destroy\<close>, lines 207-223.  \<^verbatim>\<open>querySelector('.sr-only')\<close> returns the first
  \<^verbatim>\<open>.sr-only\<close> element below the host in document order, whoever put it there, and
  \<^verbatim>\<open>this.element.removeChild\<close> removes it when it is a direct child and throws a
  \<^verbatim>\<open>NotFoundError\<close> otherwise; the throw comes after \<open>stop\<close> and the removal of the
  listener and before the classes are removed.  The widget keeps its references to the
  text and cursor elements, so removing a node does not change what a tick does.
\<close>

definition destroy :: "widget \<Rightarrow> result" where
  "destroy w =
     (let w1 = stop w;
          w2 = (if resizeHandler w1 then w1\<lparr>listening := False\<rparr> else w1)
      in case srNodes w2 of
           [] \<Rightarrow>
             Inr (w2\<lparr>classList := classList w2
                       - {''typewriter-active'', ''typewriter-initialized''}\<rparr>)
         | DirectChild # rest \<Rightarrow>
             Inr (w2\<lparr>srNodes := rest,
                     classList := classList w2
                       - {''typewriter-active'', ''typewriter-initialized''}\<rparr>)
         | Nested # rest \<Rightarrow> Inl (NotFoundError, w2))"

section \<open>Construction\<close>

text \<open>
  Lines 7-48 and 55-88.  \<open>setupAccessibility\<close> appends the \<^verbatim>\<open>.sr-only\<close> child as the
  last child of the host,
  \<open>setupResponsive\<close> creates and attaches the debounced resize handler and evaluates
  \<open>handleResponsive\<close> once, and \<open>init\<close> then schedules \<open>start\<close> after 300 ms.
\<close>

definition setupAccessibility :: "widget \<Rightarrow> widget" where
  "setupAccessibility w = w\<lparr>srNodes := srNodes w @ [DirectChild]\<rparr>"

definition setupResponsive :: "widget \<Rightarrow> widget" where
  "setupResponsive w = handleResponsive (w\<lparr>resizeHandler := True, listening := True\<rparr>)"

definition init :: "widget \<Rightarrow> widget" where
  "init w = setTimeout CallStart 300 (setupResponsive (setupAccessibility w))"

text \<open>
  \<^verbatim>\<open>new ModernTypewriter(element, options)\<close> in a window of the given width.  The
  constructor never throws; without the two children it warns and returns before \<open>init\<close>.
\<close>

definition construct :: "element \<Rightarrow> overrides \<Rightarrow> number \<Rightarrow> widget" where
  "construct e ov width =
     (let w = \<lparr> words = parseWords (dataset_words e),
                originalWords = None,
                currentIndex = 0,
                charIndex = 0,
                isDeleting = False,
                isRunning = False,
                animationId = None,
                resizeHandler = False,
                options = mergeOptions ov,
                textElement = textNode e,
                cursorElement = cursorNode e,
                timeouts = [],
                frames = 0,
                listening = False,
                srNodes = srOnly e,
                classList = classes e,
                console = [],
                innerWidth = width \<rparr>
      in if textElement w = None \<or> \<not> cursorElement w
         then w\<lparr>console := console w @ [''Typewriter: Required elements not found'']\<rparr>
         else init w)"

section \<open>Events\<close>

text \<open>
  What can happen to a widget after construction: a pending timeout fires, the window is
  resized (the debounced handler re-arms its single 250 ms timeout when the listener is
  attached), or a caller invokes one of the public operations.  An exception thrown by a
  callback is uncaught; the widget keeps the state it had at the throw.
\<close>

datatype event = Fire nat | Resize number | Start | Stop | Destroy

definition debounced :: "widget \<Rightarrow> widget" where
  "debounced w =
     setTimeout CallResize 250 (w\<lparr>timeouts := filter (\<lambda>t. fst t \<noteq> CallResize) (timeouts w)\<rparr>)"

definition fire :: "nat \<Rightarrow> widget \<Rightarrow> result" where
  "fire k w =
     (if k < length (timeouts w)
      then let w1 = w\<lparr>timeouts := take k (timeouts w) @ drop (Suc k) (timeouts w)\<rparr>
           in (case fst (timeouts w ! k) of
                 CallStart \<Rightarrow> start w1
               | CallAnimate \<Rightarrow> animate w1
               | CallResize \<Rightarrow> Inr (handleResponsive w1))
      else Inr w)"

fun step :: "event \<Rightarrow> widget \<Rightarrow> result" where
  "step (Fire k) w = fire k w"
| "step (Resize width) w =
     (let w1 = w\<lparr>innerWidth := width\<rparr> in Inr (if listening w1 then debounced w1 else w1))"
| "step Start w = start w"
| "step Stop w = Inr (stop w)"
| "step Destroy w = destroy w"

definition after :: "result \<Rightarrow> widget" where
  "after r = (case r of Inl (e, w) \<Rightarrow> w | Inr w \<Rightarrow> w)"

fun run :: "event list \<Rightarrow> widget \<Rightarrow> widget" where
  "run [] w = w"
| "run (e # es) w = run es (after (step e w))"

text \<open>The oldest pending timeout fires, \<open>n\<close> times in a row; a throw ends the run.\<close>

fun ticks :: "nat \<Rightarrow> widget \<Rightarrow> result" where
  "ticks 0 w = Inr w"
| "ticks (Suc n) w = (case fire 0 w of Inl x \<Rightarrow> Inl x | Inr w1 \<Rightarrow> ticks n w1)"

section \<open>Notions used in the statements\<close>

text \<open>
  A tick of \<open>w\<close> renders when the widget runs, the current index is inside the list and
  the text element exists.
\<close>

definition ready :: "widget \<Rightarrow> bool" where
  "ready w \<longleftrightarrow> isRunning w \<and> currentIndex w < length (words w) \<and> textElement w \<noteq> None"

definition currentWord :: "widget \<Rightarrow> jsstring" where
  "currentWord w = words w ! currentIndex w"

text \<open>
  A word start: the widget is about to type the first character of the current word and
  a single tick is pending.  One cycle types the current word and deletes it again;
  \<open>typed w\<close> is the text shown when the typing run that begins at \<open>w\<close> ends.
\<close>

definition word_start :: "widget \<Rightarrow> bool" where
  "word_start w \<longleftrightarrow>
     ready w \<and> \<not> isDeleting w \<and> charIndex w = 0 \<and> [] \<notin> set (words w)
     \<and> map fst (timeouts w) = [CallAnimate]"

definition cycle :: "widget \<Rightarrow> result" where
  "cycle w = ticks (2 * length (currentWord w)) w"

fun cycles :: "nat \<Rightarrow> widget \<Rightarrow> result" where
  "cycles 0 w = Inr w"
| "cycles (Suc k) w = (case cycle w of Inl x \<Rightarrow> Inl x | Inr w1 \<Rightarrow> cycles k w1)"

definition typed :: "widget \<Rightarrow> jsstring option" where
  "typed w = (case ticks (length (currentWord w)) w of
                Inl _ \<Rightarrow> None
              | Inr w1 \<Rightarrow> textElement w1)"

text \<open>
  Fixtures for closed examples: a call without options, and a host container that has
  both children, no \<^verbatim>\<open>.sr-only\<close> element of its own and the given \<^verbatim>\<open>data-words\<close>
  attribute.
\<close>

definition no_options :: overrides where
  "no_options = \<lparr> typingSpeed_opt = None, deletingSpeed_opt = None, pauseDuration_opt = None,
      cursorChar_opt = None, cursorBlinkSpeed_opt = None, responsiveBreakpoint_opt = None,
      maxWordLength_opt = None \<rparr>"

definition host :: "string \<Rightarrow> element" where
  "host ws = \<lparr> dataWords = Some (js ws), textNode = Some [], cursorNode = True,
               classes = {''typewriter-container''}, srOnly = [] \<rparr>"

text \<open>The three delays of the timing profile, and the two fixed profiles.\<close>

definition timing :: "widget \<Rightarrow> number \<times> number \<times> number" where
  "timing w = (typingSpeed (options w), deletingSpeed (options w), pauseDuration (options w))"

definition profile :: "bool \<Rightarrow> number \<times> number \<times> number" where
  "profile isMobile = (if isMobile then (80, 40, 1500) else (100, 50, 2000))"

text \<open>The widget that an aborted construction leaves behind.\<close>

definition inert :: "element \<Rightarrow> overrides \<Rightarrow> number \<Rightarrow> widget" where
  "inert e ov width =
     \<lparr> words = parseWords (dataset_words e), originalWords = None, currentIndex = 0,
       charIndex = 0, isDeleting = False, isRunning = False, animationId = None,
       resizeHandler = False, options = mergeOptions ov, textElement = textNode e,
       cursorElement = cursorNode e, timeouts = [], frames = 0, listening = False,
       srNodes = srOnly e, classList = classes e,
       console = [''Typewriter: Required elements not found''], innerWidth = width \<rparr>"

text \<open>\<open>untouched w0 w\<close>: \<open>w\<close> differs from \<open>w0\<close> at most in the host's class list, the
  \<^verbatim>\<open>.sr-only\<close> elements below the host and the window width.\<close>

definition untouched :: "widget \<Rightarrow> widget \<Rightarrow> bool" where
  "untouched w0 w \<longleftrightarrow>
     w = w0\<lparr>classList := classList w, srNodes := srNodes w, innerWidth := innerWidth w\<rparr>"

text \<open>
  The active list and the cached original of a widget whose parsed list is \<open>orig\<close>:
  the cache, once filled, holds \<open>orig\<close>, and the active list is \<open>orig\<close> or its truncation.
\<close>

definition words_inv :: "jsstring list \<Rightarrow> number \<Rightarrow> widget \<Rightarrow> bool" where
  "words_inv orig m w \<longleftrightarrow>
     maxWordLength (options w) = m
     \<and> (case originalWords w of
          None \<Rightarrow> words w = orig
        | Some ows \<Rightarrow> ows = orig \<and> (words w = orig \<or> words w = map (truncateWord m) orig))"

text \<open>
  The bounds of the animation state.  \<open>index_inv\<close>: the cached list has the length of the
  active one and the current index is inside a non-empty list.  \<open>char_inv\<close>: no word is
  empty and \<open>charIndex\<close> is inside the current word (at least 1 while deleting, below the
  length while typing).  \<open>settled mobile bp\<close>: the breakpoint is \<open>bp\<close>, the window is on the
  given side of it, and an evaluation of the responsive handler would keep the active list.
\<close>

definition index_inv :: "widget \<Rightarrow> bool" where
  "index_inv w \<longleftrightarrow>
     (case originalWords w of None \<Rightarrow> True | Some ows \<Rightarrow> length ows = length (words w))
     \<and> (words w \<noteq> [] \<longrightarrow> currentIndex w < length (words w))"

definition char_inv :: "widget \<Rightarrow> bool" where
  "char_inv w \<longleftrightarrow>
     [] \<notin> set (words w)
     \<and> (words w = [] \<longrightarrow> charIndex w = 0 \<and> \<not> isDeleting w)
     \<and> (words w \<noteq> [] \<longrightarrow>
          (if isDeleting w
           then 1 \<le> charIndex w \<and> charIndex w \<le> int (length (currentWord w))
           else 0 \<le> charIndex w \<and> charIndex w < int (length (currentWord w))))"

definition settled :: "bool \<Rightarrow> number \<Rightarrow> widget \<Rightarrow> bool" where
  "settled mobile bp w \<longleftrightarrow>
     responsiveBreakpoint (options w) = bp
     \<and> (innerWidth w < bp) = mobile
     \<and> words (handleResponsive w) = words w"

definition steady :: "bool \<Rightarrow> number \<Rightarrow> widget \<Rightarrow> bool" where
  "steady mobile bp w \<longleftrightarrow> settled mobile bp w \<and> index_inv w \<and> char_inv w"

text \<open>
  What is seen of the animation: the rendered text, \<open>charIndex\<close>, the deleting flag, the
  current index and the active list, then the running flag and the pending callbacks.
\<close>

definition view ::
  "widget \<Rightarrow> jsstring option \<times> int \<times> bool \<times> nat \<times> jsstring list \<times> bool \<times> callback list" where
  "view w = (textElement w, charIndex w, isDeleting w, currentIndex w, words w,
             isRunning w, map fst (timeouts w))"

section \<open>Strings: splitting and trimming\<close>

lemma js_split_not_Nil: "js_split sep s \<noteq> []"
  by (induction s) (auto split: list.splits)

lemma js_join_Cons: "ps \<noteq> [] \<Longrightarrow> js_join sep (p # ps) = p @ sep # js_join sep ps"
  by (cases ps) auto

lemma js_join_split: "js_join sep (js_split sep s) = s"
proof (induction s)
  case Nil
  show ?case by simp
next
  case (Cons c cs)
  obtain p ps where split: "js_split sep cs = p # ps"
    using js_split_not_Nil [of sep cs] by (cases "js_split sep cs") auto
  show ?case
  proof (cases "c = sep")
    case True
    then show ?thesis using Cons.IH js_split_not_Nil [of sep cs] by (simp add: js_join_Cons)
  next
    case False
    then show ?thesis using Cons.IH split by (cases ps) auto
  qed
qed

lemma js_split_no_sep: "p \<in> set (js_split sep s) \<Longrightarrow> sep \<notin> set p"
  by (induction s arbitrary: p) (auto split: if_splits list.splits)

lemma js_trim_decompose:
  "s = takeWhile isWhiteSpace s @ js_trim s
         @ rev (takeWhile isWhiteSpace (rev (dropWhile isWhiteSpace s)))"
proof -
  let ?r = "dropWhile isWhiteSpace s"
  have "rev ?r = takeWhile isWhiteSpace (rev ?r) @ dropWhile isWhiteSpace (rev ?r)"
    by simp
  then have "?r = rev (dropWhile isWhiteSpace (rev ?r)) @ rev (takeWhile isWhiteSpace (rev ?r))"
    by (metis rev_append rev_rev_ident)
  then have "?r = js_trim s @ rev (takeWhile isWhiteSpace (rev ?r))"
    by (simp add: js_trim_def)
  moreover have "s = takeWhile isWhiteSpace s @ ?r" by simp
  ultimately show ?thesis by metis
qed

lemma js_trim_surrounded:
  "\<exists>a b. s = a @ js_trim s @ b \<and> (\<forall>c\<in>set a. isWhiteSpace c) \<and> (\<forall>c\<in>set b. isWhiteSpace c)"
proof -
  let ?a = "takeWhile isWhiteSpace s"
  let ?b = "rev (takeWhile isWhiteSpace (rev (dropWhile isWhiteSpace s)))"
  have "s = ?a @ js_trim s @ ?b" by (rule js_trim_decompose)
  moreover have "\<forall>c\<in>set ?a. isWhiteSpace c" by (auto dest: set_takeWhileD)
  moreover have "\<forall>c\<in>set ?b. isWhiteSpace c" by (auto dest: set_takeWhileD)
  ultimately show ?thesis by blast
qed

lemma js_trim_last: "js_trim s \<noteq> [] \<Longrightarrow> \<not> isWhiteSpace (last (js_trim s))"
  by (simp add: js_trim_def last_rev hd_dropWhile)

lemma hd_rev_dropWhile_rev:
  "xs \<noteq> [] \<Longrightarrow> \<not> P (hd xs) \<Longrightarrow> hd (rev (dropWhile P (rev xs))) = hd xs"
proof (induction xs rule: rev_induct)
  case Nil
  then show ?case by simp
next
  case (snoc x xs)
  then show ?case by (cases xs) auto
qed

lemma js_trim_hd: "js_trim s \<noteq> [] \<Longrightarrow> \<not> isWhiteSpace (hd (js_trim s))"
proof -
  assume ne: "js_trim s \<noteq> []"
  let ?r = "dropWhile isWhiteSpace s"
  have "js_trim s = []" if a: "?r = []"
    unfolding js_trim_def a by simp
  with ne have r: "?r \<noteq> []" by blast
  then have h: "\<not> isWhiteSpace (hd ?r)" by (rule hd_dropWhile)
  from r h have "hd (js_trim s) = hd ?r"
    unfolding js_trim_def by (rule hd_rev_dropWhile_rev)
  with h show ?thesis by simp
qed

lemma parseWords_pipeline:
  "parseWords d = filter (\<lambda>w. w \<noteq> []) (map js_trim (js_split comma d))"
  by (cases d) (simp_all add: parseWords_def js_trim_def)

lemma parseWords_words:
  "w \<in> set (parseWords d) \<Longrightarrow> w \<noteq> [] \<and> \<not> isWhiteSpace (hd w) \<and> \<not> isWhiteSpace (last w)"
  by (auto simp: parseWords_pipeline js_trim_hd js_trim_last)

lemma js_punct: "set (js ''.,!?;:'') = {c. isPunctuation c}"
  by (auto simp: js_def isPunctuation_def)

section \<open>Parsing the word list\<close>

text \<open>
  Claim C10.  For every input string \<open>d\<close>, \<open>parseWords d\<close> is the list of the
  comma-separated pieces of \<open>d\<close> (joining the pieces with commas gives \<open>d\<close> back and no
  piece contains a comma), each trimmed (the piece is its trimmed form between two runs
  of whitespace), with the empty results dropped and the order kept.  The empty input,
  and an absent \<^verbatim>\<open>data-words\<close> attribute, give the empty list.  Every word of the
  result is non-empty and neither starts nor ends with whitespace.
\<close>

theorem parseWords_correct:
  "parseWords d = filter (\<lambda>w. w \<noteq> []) (map js_trim (js_split comma d))
   \<and> js_join comma (js_split comma d) = d
   \<and> (\<forall>p\<in>set (js_split comma d). comma \<notin> set p
        \<and> (\<exists>a b. p = a @ js_trim p @ b
              \<and> (\<forall>c\<in>set a. isWhiteSpace c) \<and> (\<forall>c\<in>set b. isWhiteSpace c)))
   \<and> parseWords [] = []
   \<and> parseWords (dataset_words (e\<lparr>dataWords := None\<rparr>)) = []
   \<and> (\<forall>w\<in>set (parseWords d).
         w \<noteq> [] \<and> \<not> isWhiteSpace (hd w) \<and> \<not> isWhiteSpace (last w))"
proof -
  have "\<forall>p\<in>set (js_split comma d). comma \<notin> set p
        \<and> (\<exists>a b. p = a @ js_trim p @ b
              \<and> (\<forall>c\<in>set a. isWhiteSpace c) \<and> (\<forall>c\<in>set b. isWhiteSpace c))"
    using js_split_no_sep js_trim_surrounded by blast
  moreover have "parseWords [] = []"
    by (simp add: parseWords_def)
  moreover have "parseWords (dataset_words (e\<lparr>dataWords := None\<rparr>)) = []"
    by (simp add: parseWords_def dataset_words_def)
  moreover have "\<forall>w\<in>set (parseWords d).
         w \<noteq> [] \<and> \<not> isWhiteSpace (hd w) \<and> \<not> isWhiteSpace (last w)"
    using parseWords_words by blast
  ultimately show ?thesis
    using parseWords_pipeline [of d] js_join_split [of comma d] by blast
qed

theorem parseWords_correct_witness:
  "parseWords (js '' Web Developer, ,Designer ,'') = [js ''Web Developer'', js ''Designer'']
   \<and> js ''Designer'' \<in> set (parseWords (js '' Web Developer, ,Designer ,''))
   \<and> js ''Designer'' \<noteq> []
   \<and> \<not> isWhiteSpace (hd (js ''Designer'')) \<and> \<not> isWhiteSpace (last (js ''Designer''))"
proof -
  have val: "parseWords (js '' Web Developer, ,Designer ,'') = [js ''Web Developer'', js ''Designer'']"
    by (simp add: parseWords_def js_def comma_def js_trim_def isWhiteSpace_def)
  then have mem: "js ''Designer'' \<in> set (parseWords (js '' Web Developer, ,Designer ,''))"
    by simp
  from parseWords_correct [of "js '' Web Developer, ,Designer ,''"] mem val
  show ?thesis by blast
qed

section \<open>Per-character typing delay\<close>

text \<open>
  Claim C3.  For every word and index \<open>i\<close>, \<open>calculateTypingSpeed\<close> returns 1.2 times
  the configured typing speed when \<open>i\<close> is 0 or the last index of the word; otherwise 1.5
  times the speed when there is a character at \<open>i - 1\<close> and it is one of \<^verbatim>\<open>. , ! ? ; :\<close>;
  otherwise the speed itself.  The first/last test comes first, so exactly one factor
  applies.  For \<^verbatim>\<open>"Hi."\<close>: index 0 gives 1.2, index 1 the base speed, index 2 gives 1.2;
  for \<^verbatim>\<open>"a.b"\<close> index 2 follows a full stop and is last, and gives 1.2; for \<^verbatim>\<open>"a.bc"\<close>
  index 2 follows a full stop and is not last, and gives 1.5.
\<close>

theorem calculateTypingSpeed_policy:
  "calculateTypingSpeed opts word i =
     (if i = 0 \<or> i = int (length word) - 1 then typingSpeed opts * 1.2
      else if 1 \<le> i \<and> i \<le> int (length word) \<and> word ! nat (i - 1) \<in> set (js ''.,!?;:'')
           then typingSpeed opts * 1.5
           else typingSpeed opts)
   \<and> calculateTypingSpeed opts (js ''Hi.'') 0 = typingSpeed opts * 1.2
   \<and> calculateTypingSpeed opts (js ''Hi.'') 1 = typingSpeed opts
   \<and> calculateTypingSpeed opts (js ''Hi.'') 2 = typingSpeed opts * 1.2
   \<and> calculateTypingSpeed opts (js ''a.b'') 2 = typingSpeed opts * 1.2
   \<and> calculateTypingSpeed opts (js ''a.bc'') 2 = typingSpeed opts * 1.5"
proof -
  have general: "calculateTypingSpeed opts word i =
     (if i = 0 \<or> i = int (length word) - 1 then typingSpeed opts * 1.2
      else if 1 \<le> i \<and> i \<le> int (length word) \<and> word ! nat (i - 1) \<in> set (js ''.,!?;:'')
           then typingSpeed opts * 1.5
           else typingSpeed opts)"
    unfolding js_punct by (auto simp: calculateTypingSpeed_def charAt_def Let_def)
  have lit: "js ''Hi.'' = [0x48, 0x69, 0x2E]" "js ''a.b'' = [0x61, 0x2E, 0x62]"
    "js ''a.bc'' = [0x61, 0x2E, 0x62, 0x63]"
    by (simp_all add: js_def)
  have inst: "calculateTypingSpeed opts (js ''Hi.'') 0 = typingSpeed opts * 1.2"
    "calculateTypingSpeed opts (js ''Hi.'') 1 = typingSpeed opts"
    "calculateTypingSpeed opts (js ''Hi.'') 2 = typingSpeed opts * 1.2"
    "calculateTypingSpeed opts (js ''a.b'') 2 = typingSpeed opts * 1.2"
    "calculateTypingSpeed opts (js ''a.bc'') 2 = typingSpeed opts * 1.5"
    unfolding lit by (simp_all add: calculateTypingSpeed_def charAt_def isPunctuation_def)
  from general inst show ?thesis by blast
qed

section \<open>Ticks, typing runs and deleting runs\<close>

lemma animate_stopped: "\<not> isRunning w \<Longrightarrow> animate w = Inr w"
  by (simp add: animate_def)

lemma animate_fault:
  "isRunning w \<Longrightarrow> length (words w) \<le> currentIndex w \<or> textElement w = None
     \<Longrightarrow> animate w = Inl (TypeError, w)"
  by (simp add: animate_def)

lemma animate_typing:
  assumes "ready w" "\<not> isDeleting w"
  shows "animate w = Inr (w\<lparr>
      textElement := Some (take (nat (charIndex w + 1)) (currentWord w)),
      charIndex := charIndex w + 1,
      isDeleting := (charIndex w + 1 = int (length (currentWord w))),
      timeouts := timeouts w @ [(CallAnimate,
         if charIndex w + 1 = int (length (currentWord w)) then pauseDuration (options w)
         else calculateTypingSpeed (options w) (currentWord w) (charIndex w + 1))],
      animationId := Some (Suc (frames w)),
      frames := Suc (frames w)\<rparr>)"
  using assms
  by (simp add: animate_def ready_def currentWord_def Let_def setTimeout_def
      requestAnimationFrame_def substring0_def)

lemma animate_deleting:
  assumes "ready w" "isDeleting w"
  shows "animate w = Inr (w\<lparr>
      textElement := Some (take (nat (charIndex w - 1)) (currentWord w)),
      charIndex := charIndex w - 1,
      isDeleting := (charIndex w - 1 \<noteq> 0),
      currentIndex := (if charIndex w - 1 = 0 then (currentIndex w + 1) mod length (words w)
                       else currentIndex w),
      timeouts := timeouts w @ [(CallAnimate,
         if charIndex w - 1 = 0 then 300 else deletingSpeed (options w))],
      animationId := Some (Suc (frames w)),
      frames := Suc (frames w)\<rparr>)"
  using assms
  by (simp add: animate_def ready_def currentWord_def Let_def setTimeout_def
      requestAnimationFrame_def substring0_def)

lemma fire0_animate:
  "timeouts w = [(CallAnimate, d)] \<Longrightarrow> fire 0 w = animate (w\<lparr>timeouts := []\<rparr>)"
  by (simp add: fire_def)

lemma ready_simps [simp]:
  "ready (w\<lparr>timeouts := ts\<rparr>) = ready w"
  "ready (w\<lparr>frames := f\<rparr>) = ready w"
  "ready (w\<lparr>animationId := a\<rparr>) = ready w"
  "ready (w\<lparr>charIndex := c\<rparr>) = ready w"
  "ready (w\<lparr>isDeleting := b\<rparr>) = ready w"
  "ready (w\<lparr>textElement := Some t\<rparr>) = (isRunning w \<and> currentIndex w < length (words w))"
  by (simp_all add: ready_def)

lemma currentWord_simps [simp]:
  "currentWord (w\<lparr>timeouts := ts\<rparr>) = currentWord w"
  "currentWord (w\<lparr>frames := f\<rparr>) = currentWord w"
  "currentWord (w\<lparr>animationId := a\<rparr>) = currentWord w"
  "currentWord (w\<lparr>charIndex := c\<rparr>) = currentWord w"
  "currentWord (w\<lparr>isDeleting := b\<rparr>) = currentWord w"
  "currentWord (w\<lparr>textElement := t\<rparr>) = currentWord w"
  by (simp_all add: currentWord_def)

lemma typing_run:
  "ready w \<Longrightarrow> \<not> isDeleting w \<Longrightarrow> 0 \<le> charIndex w
   \<Longrightarrow> charIndex w + int (Suc n) = int (length (currentWord w))
   \<Longrightarrow> timeouts w = [(CallAnimate, d)]
   \<Longrightarrow> ticks (Suc n) w = Inr (w\<lparr>
         textElement := Some (currentWord w),
         charIndex := int (length (currentWord w)),
         isDeleting := True,
         timeouts := [(CallAnimate, pauseDuration (options w))],
         animationId := Some (frames w + Suc n),
         frames := frames w + Suc n\<rparr>)"
proof (induction n arbitrary: w d)
  case 0
  then have "ready (w\<lparr>timeouts := []\<rparr>)" "\<not> isDeleting (w\<lparr>timeouts := []\<rparr>)"
    by simp_all
  from animate_typing [OF this] 0 show ?case
    by (simp add: fire0_animate)
next
  case (Suc n)
  let ?v = "w\<lparr>timeouts := []\<rparr>"
  let ?d = "calculateTypingSpeed (options w) (currentWord w) (charIndex w + 1)"
  let ?w1 = "w\<lparr>textElement := Some (take (nat (charIndex w + 1)) (currentWord w)),
      charIndex := charIndex w + 1,
      timeouts := [(CallAnimate, ?d)],
      animationId := Some (Suc (frames w)),
      frames := Suc (frames w)\<rparr>"
  from Suc.prems have r: "ready ?v" "\<not> isDeleting ?v" by simp_all
  from Suc.prems have more: "charIndex w + 1 \<noteq> int (length (currentWord w))" by simp
  from animate_typing [OF r] more Suc.prems have step1: "fire 0 w = Inr ?w1"
    by (simp add: fire0_animate)
  from Suc.prems have pre: "ready ?w1" "\<not> isDeleting ?w1" "0 \<le> charIndex ?w1"
    "charIndex ?w1 + int (Suc n) = int (length (currentWord ?w1))"
    "timeouts ?w1 = [(CallAnimate, ?d)]"
    by (simp_all add: ready_def)
  have "ticks (Suc (Suc n)) w = ticks (Suc n) ?w1"
    using step1 by simp
  also have "\<dots> = Inr (?w1\<lparr>
         textElement := Some (currentWord ?w1),
         charIndex := int (length (currentWord ?w1)),
         isDeleting := True,
         timeouts := [(CallAnimate, pauseDuration (options ?w1))],
         animationId := Some (frames ?w1 + Suc n),
         frames := frames ?w1 + Suc n\<rparr>)"
    by (rule Suc.IH [OF pre])
  finally show ?case by simp
qed

lemma deleting_run:
  "ready w \<Longrightarrow> isDeleting w \<Longrightarrow> charIndex w = int (Suc n)
   \<Longrightarrow> timeouts w = [(CallAnimate, d)]
   \<Longrightarrow> ticks (Suc n) w = Inr (w\<lparr>
         textElement := Some [],
         charIndex := 0,
         isDeleting := False,
         currentIndex := (currentIndex w + 1) mod length (words w),
         timeouts := [(CallAnimate, 300)],
         animationId := Some (frames w + Suc n),
         frames := frames w + Suc n\<rparr>)"
proof (induction n arbitrary: w d)
  case 0
  then have "ready (w\<lparr>timeouts := []\<rparr>)" "isDeleting (w\<lparr>timeouts := []\<rparr>)"
    by simp_all
  from animate_deleting [OF this] 0 show ?case
    by (simp add: fire0_animate)
next
  case (Suc n)
  let ?v = "w\<lparr>timeouts := []\<rparr>"
  let ?w1 = "w\<lparr>textElement := Some (take (nat (charIndex w - 1)) (currentWord w)),
      charIndex := charIndex w - 1,
      timeouts := [(CallAnimate, deletingSpeed (options w))],
      animationId := Some (Suc (frames w)),
      frames := Suc (frames w)\<rparr>"
  from Suc.prems have r: "ready ?v" "isDeleting ?v" by simp_all
  from animate_deleting [OF r] Suc.prems have step1: "fire 0 w = Inr ?w1"
    by (simp add: fire0_animate)
  from Suc.prems have pre: "ready ?w1" "isDeleting ?w1" "charIndex ?w1 = int (Suc n)"
    "timeouts ?w1 = [(CallAnimate, deletingSpeed (options w))]"
    by (simp_all add: ready_def)
  have "ticks (Suc (Suc n)) w = ticks (Suc n) ?w1"
    using step1 by simp
  also have "\<dots> = Inr (?w1\<lparr>
         textElement := Some [],
         charIndex := 0,
         isDeleting := False,
         currentIndex := (currentIndex ?w1 + 1) mod length (words ?w1),
         timeouts := [(CallAnimate, 300)],
         animationId := Some (frames ?w1 + Suc n),
         frames := frames ?w1 + Suc n\<rparr>)"
    by (rule Suc.IH [OF pre])
  finally show ?case by simp
qed

lemma ticks_add:
  "ticks (m + n) w = (case ticks m w of Inl x \<Rightarrow> Inl x | Inr w1 \<Rightarrow> ticks n w1)"
  by (induction m arbitrary: w) (auto split: sum.splits)

lemma single_timer: "map fst (timeouts w) = [CallAnimate] \<Longrightarrow> \<exists>d. timeouts w = [(CallAnimate, d)]"
  by (cases "timeouts w") auto

lemma word_start_currentWord: "word_start w \<Longrightarrow> currentWord w \<noteq> []"
  by (auto simp: word_start_def ready_def currentWord_def dest: nth_mem)

lemma typing_run_full:
  assumes "word_start w"
  shows "ticks (length (currentWord w)) w = Inr (w\<lparr>
         textElement := Some (currentWord w),
         charIndex := int (length (currentWord w)),
         isDeleting := True,
         timeouts := [(CallAnimate, pauseDuration (options w))],
         animationId := Some (frames w + length (currentWord w)),
         frames := frames w + length (currentWord w)\<rparr>)"
proof -
  from assms obtain d where d: "timeouts w = [(CallAnimate, d)]"
    using single_timer by (auto simp: word_start_def)
  from word_start_currentWord [OF assms] obtain n where n: "length (currentWord w) = Suc n"
    by (cases "currentWord w") auto
  from assms have "ready w" "\<not> isDeleting w" "0 \<le> charIndex w"
    "charIndex w + int (Suc n) = int (length (currentWord w))"
    by (simp_all add: word_start_def n)
  from typing_run [OF this d] show ?thesis by (simp add: n)
qed

lemma full_cycle:
  assumes "word_start w"
  shows "cycle w = Inr (w\<lparr>
         textElement := Some [],
         charIndex := 0,
         isDeleting := False,
         currentIndex := (currentIndex w + 1) mod length (words w),
         timeouts := [(CallAnimate, 300)],
         animationId := Some (frames w + 2 * length (currentWord w)),
         frames := frames w + 2 * length (currentWord w)\<rparr>)"
proof -
  let ?w1 = "w\<lparr>
         textElement := Some (currentWord w),
         charIndex := int (length (currentWord w)),
         isDeleting := True,
         timeouts := [(CallAnimate, pauseDuration (options w))],
         animationId := Some (frames w + length (currentWord w)),
         frames := frames w + length (currentWord w)\<rparr>"
  from word_start_currentWord [OF assms] obtain n where n: "length (currentWord w) = Suc n"
    by (cases "currentWord w") auto
  from assms have pre: "ready ?w1" "isDeleting ?w1" "charIndex ?w1 = int (Suc n)"
    "timeouts ?w1 = [(CallAnimate, pauseDuration (options w))]"
    by (simp_all add: word_start_def ready_def n)
  have "ticks (length (currentWord w)) = ticks (Suc n)"
    by (simp only: n)
  then have same: "ticks (length (currentWord w)) ?w1 = ticks (Suc n) ?w1"
    by (rule fun_cong)
  have "cycle w = ticks (length (currentWord w) + length (currentWord w)) w"
    by (simp add: cycle_def mult_2)
  also have "\<dots> = ticks (length (currentWord w)) ?w1"
    unfolding ticks_add typing_run_full [OF assms] by simp
  also note same
  also note deleting_run [OF pre]
  finally show ?thesis by (simp add: n)
qed

lemma word_start_cycle:
  assumes "word_start w" "cycle w = Inr w1"
  shows "word_start w1" "words w1 = words w"
    "currentIndex w1 = (currentIndex w + 1) mod length (words w)"
proof -
  from assms(1) have pos: "0 < length (words w)"
    by (auto simp: word_start_def ready_def)
  from assms(2) have w1: "w1 = w\<lparr>
         textElement := Some [],
         charIndex := 0,
         isDeleting := False,
         currentIndex := (currentIndex w + 1) mod length (words w),
         timeouts := [(CallAnimate, 300)],
         animationId := Some (frames w + 2 * length (currentWord w)),
         frames := frames w + 2 * length (currentWord w)\<rparr>"
    unfolding full_cycle [OF assms(1)] by simp
  show "word_start w1"
    using assms(1) pos unfolding w1 by (simp add: word_start_def ready_def)
  show "words w1 = words w" unfolding w1 by simp
  show "currentIndex w1 = (currentIndex w + 1) mod length (words w)" unfolding w1 by simp
qed

lemma cycles_index:
  "word_start w \<Longrightarrow>
   \<exists>wk. cycles k w = Inr wk \<and> word_start wk \<and> words wk = words w
        \<and> currentIndex wk = (currentIndex w + k) mod length (words w)"
proof (induction k arbitrary: w)
  case 0
  then show ?case by (simp add: word_start_def ready_def)
next
  case (Suc k)
  from full_cycle [OF Suc.prems] obtain w1 where c: "cycle w = Inr w1" by blast
  note w1 = word_start_cycle [OF Suc.prems c]
  from Suc.IH [OF w1(1)] obtain wk where wk: "cycles k w1 = Inr wk" "word_start wk"
    "words wk = words w1" "currentIndex wk = (currentIndex w1 + k) mod length (words w1)"
    by blast
  have "(currentIndex w1 + k) mod length (words w1) = (currentIndex w + Suc k) mod length (words w)"
    unfolding w1 by (simp add: mod_add_left_eq)
  with wk c w1 show ?case by simp
qed

lemma typed_word_start: "word_start w \<Longrightarrow> typed w = Some (currentWord w)"
  by (simp add: typed_def typing_run_full)

lemmas eval_defs = construct_def init_def setupAccessibility_def setupResponsive_def
  handleResponsive_def truncateLongWords_def restoreOriginalWords_def adjustTimingForMobile_def
  adjustTimingForDesktop_def truncateWord_def mergeOptions_def no_options_def host_def
  parseWords_def dataset_words_def js_def comma_def js_trim_def isWhiteSpace_def
  setTimeout_def requestAnimationFrame_def animate_def start_def stop_def destroy_def
  fire_def debounced_def after_def substring0_def calculateTypingSpeed_def charAt_def
  isPunctuation_def ellipsis_def Let_def

section \<open>What a run renders when it ends\<close>

text \<open>
  Claim C1.  Take any state in which a tick renders (running, current index inside the
  word list, text element present).  The tick does not fault.  If it is a typing tick
  after which \<open>charIndex\<close> equals the length of the current word, the widget switches to
  deleting and the rendered text is the whole current word; if it is a deleting tick after
  which \<open>charIndex\<close> is 0, the widget switches to typing and the rendered text is empty.
  Such ticks do come: from a typing state inside the word, the remaining
  \<open>length - charIndex\<close> ticks end the typing run with the whole word shown, and from a
  deleting state with \<open>charIndex \<ge> 1\<close>, \<open>charIndex\<close> ticks end the deleting run with the empty
  text shown.
\<close>

theorem run_end_rendering:
  assumes "ready w"
  shows "(\<exists>w'. animate w = Inr w'
           \<and> (\<not> isDeleting w \<and> charIndex w' = int (length (currentWord w))
                \<longrightarrow> isDeleting w' \<and> textElement w' = Some (currentWord w))
           \<and> (isDeleting w \<and> charIndex w' = 0
                \<longrightarrow> \<not> isDeleting w' \<and> textElement w' = Some []))
       \<and> (\<not> isDeleting w \<and> 0 \<le> charIndex w \<and> charIndex w < int (length (currentWord w))
            \<and> map fst (timeouts w) = [CallAnimate]
            \<longrightarrow> (\<exists>w'. ticks (nat (int (length (currentWord w)) - charIndex w)) w = Inr w'
                   \<and> isDeleting w' \<and> charIndex w' = int (length (currentWord w))
                   \<and> textElement w' = Some (currentWord w)))
       \<and> (isDeleting w \<and> 1 \<le> charIndex w \<and> map fst (timeouts w) = [CallAnimate]
            \<longrightarrow> (\<exists>w'. ticks (nat (charIndex w)) w = Inr w'
                   \<and> \<not> isDeleting w' \<and> charIndex w' = 0 \<and> textElement w' = Some []))"
proof (intro conjI impI)
  show "\<exists>w'. animate w = Inr w'
           \<and> (\<not> isDeleting w \<and> charIndex w' = int (length (currentWord w))
                \<longrightarrow> isDeleting w' \<and> textElement w' = Some (currentWord w))
           \<and> (isDeleting w \<and> charIndex w' = 0
                \<longrightarrow> \<not> isDeleting w' \<and> textElement w' = Some [])"
  proof (cases "isDeleting w")
    case True
    from animate_deleting [OF assms True] True show ?thesis by simp
  next
    case False
    from animate_typing [OF assms False] False show ?thesis by auto
  qed
next
  assume a: "\<not> isDeleting w \<and> 0 \<le> charIndex w \<and> charIndex w < int (length (currentWord w))
            \<and> map fst (timeouts w) = [CallAnimate]"
  then have "map fst (timeouts w) = [CallAnimate]" by simp
  from single_timer [OF this] obtain d where d: "timeouts w = [(CallAnimate, d)]"
    by blast
  define n where "n = nat (int (length (currentWord w)) - charIndex w) - 1"
  with a have n: "nat (int (length (currentWord w)) - charIndex w) = Suc n"
    "charIndex w + int (Suc n) = int (length (currentWord w))"
    by auto
  from a have "\<not> isDeleting w" "0 \<le> charIndex w" by simp_all
  from typing_run [OF assms this n(2) d]
  show "\<exists>w'. ticks (nat (int (length (currentWord w)) - charIndex w)) w = Inr w'
                   \<and> isDeleting w' \<and> charIndex w' = int (length (currentWord w))
                   \<and> textElement w' = Some (currentWord w)"
    unfolding n(1) by simp
next
  assume a: "isDeleting w \<and> 1 \<le> charIndex w \<and> map fst (timeouts w) = [CallAnimate]"
  then have "map fst (timeouts w) = [CallAnimate]" by simp
  from single_timer [OF this] obtain d where d: "timeouts w = [(CallAnimate, d)]"
    by blast
  define n where "n = nat (charIndex w) - 1"
  with a have n: "nat (charIndex w) = Suc n" "charIndex w = int (Suc n)"
    by auto
  from a have "isDeleting w" by simp
  from deleting_run [OF assms this n(2) d]
  show "\<exists>w'. ticks (nat (charIndex w)) w = Inr w'
                   \<and> \<not> isDeleting w' \<and> charIndex w' = 0 \<and> textElement w' = Some []"
    unfolding n(1) by simp
qed

theorem run_end_rendering_witness:
  "ready (run [Fire 0] (construct (host ''Hi,Yo'') no_options 1024))
   \<and> (\<exists>w'. ticks 1 (run [Fire 0] (construct (host ''Hi,Yo'') no_options 1024)) = Inr w'
         \<and> isDeleting w' \<and> charIndex w' = 2 \<and> textElement w' = Some (js ''Hi''))
   \<and> ready (run [Fire 0, Fire 0] (construct (host ''Hi,Yo'') no_options 1024))
   \<and> (\<exists>w'. ticks 2 (run [Fire 0, Fire 0] (construct (host ''Hi,Yo'') no_options 1024)) = Inr w'
         \<and> \<not> isDeleting w' \<and> charIndex w' = 0 \<and> textElement w' = Some [])"
proof -
  define a where "a = run [Fire 0] (construct (host ''Hi,Yo'') no_options 1024)"
  define b where "b = run [Fire 0, Fire 0] (construct (host ''Hi,Yo'') no_options 1024)"
  have a: "ready a" "\<not> isDeleting a" "charIndex a = 1" "currentWord a = js ''Hi''"
    "map fst (timeouts a) = [CallAnimate]"
    by (simp_all add: a_def eval_defs ready_def currentWord_def)
  have b: "ready b" "isDeleting b" "charIndex b = 2" "map fst (timeouts b) = [CallAnimate]"
    by (simp_all add: b_def eval_defs ready_def)
  have len: "length (js ''Hi'') = 2" by (simp add: js_def)
  from run_end_rendering [OF a(1)] a len
  have "\<exists>w'. ticks 1 a = Inr w'
         \<and> isDeleting w' \<and> charIndex w' = 2 \<and> textElement w' = Some (js ''Hi'')"
    by simp
  moreover from run_end_rendering [OF b(1)] b
  have "\<exists>w'. ticks 2 b = Inr w'
         \<and> \<not> isDeleting w' \<and> charIndex w' = 0 \<and> textElement w' = Some []"
    by simp
  ultimately show ?thesis using a(1) b(1) unfolding a_def b_def by blast
qed

section \<open>Cyclic word advance\<close>

text \<open>
  Claim C2.  A deleting tick that brings \<open>charIndex\<close> to 0 moves \<open>currentIndex\<close> from \<open>i\<close>
  to \<open>(i + 1) mod |W|\<close> and switches to typing.  From a word start at index \<open>i\<close>, after \<open>k\<close>
  complete type/delete cycles the widget is at a word start again, at index
  \<open>(i + k) mod |W|\<close>, and the word it types next is the word of \<open>W\<close> at that index; after
  \<open>|W|\<close> more cycles the index and the typed word are the same again.
\<close>

theorem word_advance_cyclic:
  assumes "word_start w"
  shows "(ready v \<and> isDeleting v \<and> charIndex v = 1
           \<longrightarrow> (\<exists>v'. animate v = Inr v' \<and> \<not> isDeleting v' \<and> charIndex v' = 0
                  \<and> words v' = words v
                  \<and> currentIndex v' = (currentIndex v + 1) mod length (words v)))
       \<and> (\<exists>wk. cycles k w = Inr wk \<and> word_start wk
              \<and> currentIndex wk = (currentIndex w + k) mod length (words w)
              \<and> typed wk = Some (words w ! ((currentIndex w + k) mod length (words w))))
       \<and> (\<exists>wk wn. cycles k w = Inr wk \<and> cycles (k + length (words w)) w = Inr wn
              \<and> currentIndex wn = currentIndex wk \<and> typed wn = typed wk)"
proof -
  have step: "ready v \<and> isDeleting v \<and> charIndex v = 1
           \<longrightarrow> (\<exists>v'. animate v = Inr v' \<and> \<not> isDeleting v' \<and> charIndex v' = 0
                  \<and> words v' = words v
                  \<and> currentIndex v' = (currentIndex v + 1) mod length (words v))"
    by (auto simp: animate_deleting)
  have at: "\<exists>wk. cycles j w = Inr wk \<and> word_start wk
              \<and> currentIndex wk = (currentIndex w + j) mod length (words w)
              \<and> typed wk = Some (words w ! ((currentIndex w + j) mod length (words w)))" for j
  proof -
    from cycles_index [OF assms, of j] obtain wk where wk: "cycles j w = Inr wk" "word_start wk"
      "words wk = words w" "currentIndex wk = (currentIndex w + j) mod length (words w)"
      by blast
    from typed_word_start [OF wk(2)] wk(3,4)
    have "typed wk = Some (words w ! ((currentIndex w + j) mod length (words w)))"
      by (simp add: currentWord_def)
    with wk show ?thesis by blast
  qed
  have "(currentIndex w + (k + length (words w))) mod length (words w)
        = (currentIndex w + k) mod length (words w)"
    by (simp add: add.assoc [symmetric])
  with at [of k] at [of "k + length (words w)"]
  have "\<exists>wk wn. cycles k w = Inr wk \<and> cycles (k + length (words w)) w = Inr wn
              \<and> currentIndex wn = currentIndex wk \<and> typed wn = typed wk"
    by auto
  with step at [of k] show ?thesis by blast
qed

theorem word_advance_cyclic_witness:
  "word_start (run [Fire 0, Fire 0, Fire 0, Fire 0] (construct (host ''Hi,Yo'') no_options 1024))
   \<and> (\<exists>wk. cycles 1 (run [Fire 0, Fire 0, Fire 0, Fire 0]
                       (construct (host ''Hi,Yo'') no_options 1024)) = Inr wk
         \<and> word_start wk \<and> currentIndex wk = 0 \<and> typed wk = Some (js ''Hi''))
   \<and> (\<exists>v'. animate (run [Fire 0, Fire 0, Fire 0] (construct (host ''Hi,Yo'') no_options 1024))
            = Inr v' \<and> \<not> isDeleting v' \<and> charIndex v' = 0 \<and> currentIndex v' = 1)"
proof -
  define w where
    "w = run [Fire 0, Fire 0, Fire 0, Fire 0] (construct (host ''Hi,Yo'') no_options 1024)"
  define v where "v = run [Fire 0, Fire 0, Fire 0] (construct (host ''Hi,Yo'') no_options 1024)"
  have w: "word_start w" "currentIndex w = 1" "words w = [js ''Hi'', js ''Yo'']"
    by (simp_all add: w_def eval_defs word_start_def ready_def)
  have v: "ready v" "isDeleting v" "charIndex v = 1" "currentIndex v = 0"
    "length (words v) = 2"
    by (simp_all add: v_def eval_defs ready_def)
  note inst = word_advance_cyclic [OF w(1), of v 1]
  have idx: "(currentIndex w + 1) mod length (words w) = 0" "words w ! 0 = js ''Hi''"
    "(currentIndex v + 1) mod length (words v) = 1"
    using w v by simp_all
  from inst have "\<exists>wk. cycles 1 w = Inr wk \<and> word_start wk
      \<and> currentIndex wk = (currentIndex w + 1) mod length (words w)
      \<and> typed wk = Some (words w ! ((currentIndex w + 1) mod length (words w)))"
    by blast
  then have "\<exists>wk. cycles 1 w = Inr wk
         \<and> word_start wk \<and> currentIndex wk = 0 \<and> typed wk = Some (js ''Hi'')"
    by (simp only: idx)
  moreover from inst v(1,2,3) have "\<exists>v'. animate v = Inr v' \<and> \<not> isDeleting v' \<and> charIndex v' = 0
      \<and> words v' = words v \<and> currentIndex v' = (currentIndex v + 1) mod length (words v)"
    by blast
  then have "\<exists>v'. animate v = Inr v' \<and> \<not> isDeleting v' \<and> charIndex v' = 0
      \<and> currentIndex v' = 1"
    unfolding idx by blast
  ultimately show ?thesis using w(1) unfolding w_def v_def by blast
qed

section \<open>Properties kept by every event\<close>

lemma after_simps [simp]: "after (Inr w) = w" "after (Inl (x, w)) = w"
  by (simp_all add: after_def)

lemma after_animate:
  "after (animate w) =
     (if \<not> ready w then w
      else if isDeleting w then w\<lparr>
        textElement := Some (take (nat (charIndex w - 1)) (currentWord w)),
        charIndex := charIndex w - 1,
        isDeleting := (charIndex w - 1 \<noteq> 0),
        currentIndex := (if charIndex w - 1 = 0 then (currentIndex w + 1) mod length (words w)
                         else currentIndex w),
        timeouts := timeouts w @ [(CallAnimate,
           if charIndex w - 1 = 0 then 300 else deletingSpeed (options w))],
        animationId := Some (Suc (frames w)),
        frames := Suc (frames w)\<rparr>
      else w\<lparr>
        textElement := Some (take (nat (charIndex w + 1)) (currentWord w)),
        charIndex := charIndex w + 1,
        isDeleting := (charIndex w + 1 = int (length (currentWord w))),
        timeouts := timeouts w @ [(CallAnimate,
           if charIndex w + 1 = int (length (currentWord w)) then pauseDuration (options w)
           else calculateTypingSpeed (options w) (currentWord w) (charIndex w + 1))],
        animationId := Some (Suc (frames w)),
        frames := Suc (frames w)\<rparr>)"
proof (cases "ready w")
  case True
  then show ?thesis by (cases "isDeleting w") (simp_all add: animate_typing animate_deleting)
next
  case False
  then show ?thesis by (auto simp: animate_def ready_def)
qed

lemma animate_ready: "ready w \<Longrightarrow> animate w = Inr (after (animate w))"
  by (cases "isDeleting w") (simp_all add: animate_typing animate_deleting)

lemma start_preserves:
  assumes "P w"
    and "\<And>v. P v \<Longrightarrow> P (after (animate v))"
    and "\<And>v. P v \<Longrightarrow> P (v\<lparr>isRunning := True,
                               classList := insert ''typewriter-active'' (classList v)\<rparr>)"
  shows "P (after (start w))"
  using assms by (simp add: start_def)

lemma fire_preserves:
  assumes "P w"
    and "\<And>v ts. P v \<Longrightarrow> P (v\<lparr>timeouts := ts\<rparr>)"
    and "\<And>v. P v \<Longrightarrow> P (after (animate v))"
    and "\<And>v. P v \<Longrightarrow> P (v\<lparr>isRunning := True,
                               classList := insert ''typewriter-active'' (classList v)\<rparr>)"
    and "\<And>v. P v \<Longrightarrow> P (handleResponsive v)"
  shows "P (after (fire k w))"
proof (cases "k < length (timeouts w)")
  case False
  with assms(1) show ?thesis by (simp add: fire_def)
next
  case True
  let ?v = "w\<lparr>timeouts := take k (timeouts w) @ drop (Suc k) (timeouts w)\<rparr>"
  have v: "P ?v" by (rule assms(2) [OF assms(1)])
  show ?thesis
  proof (cases "fst (timeouts w ! k)")
    case CallStart
    with True start_preserves [of P ?v, OF v assms(3) assms(4)] show ?thesis
      by (simp add: fire_def)
  next
    case CallAnimate
    with True assms(3) [OF v] show ?thesis by (simp add: fire_def)
  next
    case CallResize
    with True assms(5) [OF v] show ?thesis by (simp add: fire_def)
  qed
qed

lemma step_preserves:
  assumes "P w"
    and "\<And>v ts. P v \<Longrightarrow> P (v\<lparr>timeouts := ts\<rparr>)"
    and "\<And>v. P v \<Longrightarrow> P (after (animate v))"
    and "\<And>v. P v \<Longrightarrow> P (v\<lparr>isRunning := True,
                               classList := insert ''typewriter-active'' (classList v)\<rparr>)"
    and "\<And>v. P v \<Longrightarrow> P (handleResponsive v)"
    and "\<And>v x. P v \<Longrightarrow> e = Resize x \<Longrightarrow> P (v\<lparr>innerWidth := x\<rparr>)"
    and "\<And>v. P v \<Longrightarrow> P (stop v)"
    and "\<And>v. P v \<Longrightarrow> P (after (destroy v))"
  shows "P (after (step e w))"
proof (cases e)
  case (Fire k)
  with fire_preserves [of P w, OF assms(1-5)] show ?thesis by simp
next
  case (Resize x)
  have a: "P (w\<lparr>innerWidth := x\<rparr>)"
    by (rule assms(6) [OF assms(1) Resize])
  have "P (debounced (w\<lparr>innerWidth := x\<rparr>))"
    using assms(2) [OF a] by (simp add: debounced_def setTimeout_def)
  with a Resize show ?thesis by (simp add: Let_def)
next
  case Start
  with start_preserves [of P w, OF assms(1) assms(3) assms(4)] show ?thesis by simp
next
  case Stop
  with assms(7) [OF assms(1)] show ?thesis by simp
next
  case Destroy
  with assms(8) [OF assms(1)] show ?thesis by simp
qed

lemma run_preserves:
  assumes "P w" and "\<And>v e. P v \<Longrightarrow> e \<in> set es \<Longrightarrow> P (after (step e v))"
  shows "P (run es w)"
  using assms by (induction es arbitrary: w) auto

section \<open>Timing profiles\<close>

lemma timing_frame [simp]:
  "timing (w\<lparr>timeouts := ts\<rparr>) = timing w"
  "timing (w\<lparr>innerWidth := x\<rparr>) = timing w"
  "timing (w\<lparr>isRunning := b, classList := cl\<rparr>) = timing w"
  "timing (stop w) = timing w"
  "timing (after (destroy w)) = timing w"
  "timing (after (animate w)) = timing w"
  by (simp_all add: timing_def stop_def destroy_def after_animate Let_def
      split: option.splits list.splits srnode.splits)

lemma handleResponsive_timing:
  "timing (handleResponsive w) = profile (innerWidth w < responsiveBreakpoint (options w))"
  by (simp add: timing_def profile_def handleResponsive_def adjustTimingForMobile_def
      adjustTimingForDesktop_def Let_def)

lemma construct_initialised:
  assumes "textNode e \<noteq> None" "cursorNode e"
  shows "construct e ov width = init
     \<lparr> words = parseWords (dataset_words e), originalWords = None, currentIndex = 0,
       charIndex = 0, isDeleting = False, isRunning = False, animationId = None,
       resizeHandler = False, options = mergeOptions ov, textElement = textNode e,
       cursorElement = cursorNode e, timeouts = [], frames = 0, listening = False,
       srNodes = srOnly e, classList = classes e, console = [], innerWidth = width \<rparr>"
  using assms by (cases "textNode e") (simp_all add: construct_def Let_def)

lemma profile_mem: "profile b \<in> {profile True, profile False}"
  by (cases b) simp_all

lemma init_frame:
  "timeouts (init w) = timeouts w @ [(CallStart, 300)]"
  "isRunning (init w) = isRunning w"
  "frames (init w) = frames w"
  "textElement (init w) = textElement w"
  "timing (init w) = profile (innerWidth w < responsiveBreakpoint (options w))"
  by (simp_all add: init_def setupResponsive_def setupAccessibility_def setTimeout_def
      handleResponsive_def adjustTimingForMobile_def adjustTimingForDesktop_def
      truncateLongWords_def restoreOriginalWords_def timing_def profile_def Let_def
      split: option.splits)

lemma timing_step:
  assumes "timing w \<in> {profile True, profile False}"
  shows "timing (after (step e w)) \<in> {profile True, profile False}"
proof (rule step_preserves [of "\<lambda>v. timing v \<in> {profile True, profile False}", OF assms])
  fix v :: widget
  show "timing (handleResponsive v) \<in> {profile True, profile False}"
    unfolding handleResponsive_timing by (rule profile_mem)
qed simp_all

text \<open>
  Claim C9, as the code has it.  When the host container has both required children,
  construction runs \<open>init\<close>, which evaluates the responsive handler once: the three
  delays are those of the mobile profile (80, 40, 1500) when the window is narrower than
  the breakpoint and of the desktop profile (100, 50, 2000) otherwise, whatever the
  caller supplied; at that point only the delayed \<open>start\<close> is pending and no tick has
  run.  After any sequence of events the three delays are still one of the two profiles,
  and every evaluation of the responsive handler sets them to the profile of the current
  width.
\<close>

theorem timing_overwritten:
  assumes "textNode e \<noteq> None" "cursorNode e"
  shows "timing (construct e ov width) = profile (width < responsiveBreakpoint (mergeOptions ov))
       \<and> timeouts (construct e ov width) = [(CallStart, 300)]
       \<and> \<not> isRunning (construct e ov width)
       \<and> frames (construct e ov width) = 0
       \<and> textElement (construct e ov width) = textNode e
       \<and> timing (run es (construct e ov width)) \<in> {profile True, profile False}
       \<and> timing (handleResponsive w) = profile (innerWidth w < responsiveBreakpoint (options w))"
proof -
  note c = construct_initialised [OF assms, of ov width]
  have t: "timing (construct e ov width) = profile (width < responsiveBreakpoint (mergeOptions ov))"
    unfolding c init_frame by simp
  then have "timing (construct e ov width) \<in> {profile True, profile False}"
    using profile_mem by simp
  then have "timing (run es (construct e ov width)) \<in> {profile True, profile False}"
    by (rule run_preserves [where P = "\<lambda>v. timing v \<in> {profile True, profile False}"])
       (rule timing_step)
  moreover have "timeouts (construct e ov width) = [(CallStart, 300)]"
    "\<not> isRunning (construct e ov width)" "frames (construct e ov width) = 0"
    "textElement (construct e ov width) = textNode e"
    unfolding c init_frame by simp_all
  ultimately show ?thesis using t handleResponsive_timing by blast
qed

theorem timing_overwritten_witness:
  "timing (construct (host ''Hi'') (no_options\<lparr>typingSpeed_opt := Some 10,
        deletingSpeed_opt := Some 5, pauseDuration_opt := Some 7\<rparr>) 500) = (80, 40, 1500)
   \<and> timing (run [Fire 0, Resize 1024, Fire 1]
        (construct (host ''Hi'') (no_options\<lparr>typingSpeed_opt := Some 10,
        deletingSpeed_opt := Some 5, pauseDuration_opt := Some 7\<rparr>) 500))
       \<in> {(80, 40, 1500), (100, 50, 2000)}"
proof -
  have h: "textNode (host ''Hi'') \<noteq> None" "cursorNode (host ''Hi'')"
    by (simp_all add: host_def)
  have bp: "responsiveBreakpoint (mergeOptions (no_options\<lparr>typingSpeed_opt := Some 10,
        deletingSpeed_opt := Some 5, pauseDuration_opt := Some 7\<rparr>)) = 768"
    by (simp add: mergeOptions_def no_options_def)
  from timing_overwritten [OF h, of "no_options\<lparr>typingSpeed_opt := Some 10,
        deletingSpeed_opt := Some 5, pauseDuration_opt := Some 7\<rparr>" 500
        "[Fire 0, Resize 1024, Fire 1]"]
  show ?thesis unfolding bp by (simp add: profile_def)
qed

text \<open>
  Claim C9 as stated fails when construction aborts: with the cursor child missing the
  constructor returns before \<open>init\<close>, the caller's typing speed 10 is kept, and a tick
  started on that instance schedules the next one after \<open>10 * 1.2 = 12\<close> ms.
\<close>

theorem inert_keeps_overrides:
  "typingSpeed (options (construct ((host ''Hi'')\<lparr>cursorNode := False\<rparr>)
        (no_options\<lparr>typingSpeed_opt := Some 10\<rparr>) 1024)) = 10
   \<and> timeouts (after (start (construct ((host ''Hi'')\<lparr>cursorNode := False\<rparr>)
        (no_options\<lparr>typingSpeed_opt := Some 10\<rparr>) 1024))) = [(CallAnimate, 12)]
   \<and> textElement (after (start (construct ((host ''Hi'')\<lparr>cursorNode := False\<rparr>)
        (no_options\<lparr>typingSpeed_opt := Some 10\<rparr>) 1024))) = Some (js ''H'')"
  by (simp add: eval_defs)

section \<open>Empty word list\<close>

lemma empty_list_tick:
  "words w = [] \<Longrightarrow> animate w = (if isRunning w then Inl (TypeError, w) else Inr w)"
  by (simp add: animate_def)

text \<open>
  Claim C5 against the code.  A host with both children and \<^verbatim>\<open>data-words=""\<close> parses
  to the empty list.  When the delayed \<open>start\<close> fires, the first tick reads
  \<^verbatim>\<open>this.words[0]\<close>, which is \<^verbatim>\<open>undefined\<close>, and throws a \<^verbatim>\<open>TypeError\<close>: nothing is
  rendered and nothing is scheduled, but the tick faults and the widget stays marked as
  running.
\<close>

theorem empty_word_list_faults:
  "words (construct (host '''') no_options 1024) = []
   \<and> timeouts (construct (host '''') no_options 1024) = [(CallStart, 300)]
   \<and> fire 0 (construct (host '''') no_options 1024)
       = Inl (TypeError, (construct (host '''') no_options 1024)
               \<lparr>isRunning := True,
                timeouts := [],
                classList := {''typewriter-active'', ''typewriter-container''}\<rparr>)"
  by (simp add: eval_defs insert_commute)

section \<open>Stopping and restarting\<close>

text \<open>
  Claim C7.  Take a running widget whose next tick renders.  \<open>stop\<close> keeps the rendered
  text and \<open>charIndex\<close>.  \<open>start\<close> right after it runs a tick at once, and that tick
  renders exactly what the next tick would have rendered without the stop, from the
  preserved \<open>charIndex\<close>.  In the middle of typing a word this is the prefix one
  character longer than before the stop, \<open>charIndex\<close> grows by one, and any pending tick
  that fires next, while the word is unfinished, renders the prefix that is one character
  longer again: nothing is skipped and nothing is repeated.
\<close>

theorem stop_start_resumes:
  assumes "ready w"
  shows "textElement (stop w) = textElement w \<and> charIndex (stop w) = charIndex w
       \<and> (\<exists>w'. start (stop w) = Inr w' \<and> isRunning w' \<and> words w' = words w
             \<and> textElement w' = textElement (after (animate w))
             \<and> charIndex w' = charIndex (after (animate w))
             \<and> isDeleting w' = isDeleting (after (animate w))
             \<and> currentIndex w' = currentIndex (after (animate w))
             \<and> (\<not> isDeleting w \<and> 0 \<le> charIndex w \<and> charIndex w < int (length (currentWord w))
                  \<longrightarrow> textElement w' = Some (take (nat (charIndex w) + 1) (currentWord w))
                    \<and> charIndex w' = charIndex w + 1
                    \<and> (\<forall>k<length (timeouts w').
                          fst (timeouts w' ! k) = CallAnimate \<and> \<not> isDeleting w'
                          \<longrightarrow> (\<exists>w''. fire k w' = Inr w''
                                 \<and> textElement w'' = Some (take (nat (charIndex w) + 2) (currentWord w))
                                 \<and> charIndex w'' = charIndex w + 2))))"
proof -
  let ?s = "stop w"
  let ?r = "?s\<lparr>isRunning := True, classList := insert ''typewriter-active'' (classList ?s)\<rparr>"
  have s: "textElement ?s = textElement w" "charIndex ?s = charIndex w" "\<not> isRunning ?s"
    "words ?s = words w" "currentIndex ?s = currentIndex w" "isDeleting ?s = isDeleting w"
    "options ?s = options w"
    by (simp_all add: stop_def Let_def split: option.splits)
  with assms have r: "ready ?r" "isDeleting ?r = isDeleting w" "currentWord ?r = currentWord w"
    "charIndex ?r = charIndex w" "words ?r = words w" "currentIndex ?r = currentIndex w"
    "options ?r = options w"
    by (simp_all add: ready_def currentWord_def)
  define w' where "w' = after (animate ?r)"
  have st: "start ?s = Inr w'"
    using s(3) animate_ready [OF r(1)] by (simp add: start_def w'_def)
  have same: "isRunning w'" "words w' = words w"
    "textElement w' = textElement (after (animate w))"
    "charIndex w' = charIndex (after (animate w))"
    "isDeleting w' = isDeleting (after (animate w))"
    "currentIndex w' = currentIndex (after (animate w))"
    using assms r unfolding w'_def by (simp_all add: after_animate ready_def)
  have typing: "textElement w' = Some (take (nat (charIndex w) + 1) (currentWord w))
        \<and> charIndex w' = charIndex w + 1
        \<and> (\<forall>k<length (timeouts w').
              fst (timeouts w' ! k) = CallAnimate \<and> \<not> isDeleting w'
              \<longrightarrow> (\<exists>w''. fire k w' = Inr w''
                     \<and> textElement w'' = Some (take (nat (charIndex w) + 2) (currentWord w))
                     \<and> charIndex w'' = charIndex w + 2))"
    if t: "\<not> isDeleting w" "0 \<le> charIndex w" "charIndex w < int (length (currentWord w))"
  proof -
    from assms t same have w': "textElement w' = Some (take (nat (charIndex w) + 1) (currentWord w))"
      "charIndex w' = charIndex w + 1"
      by (simp_all add: after_animate nat_add_distrib)
    have rw: "ready w'" "currentWord w' = currentWord w"
      using assms r t unfolding w'_def by (simp_all add: after_animate ready_def currentWord_def)
    have next_tick: "\<exists>w''. fire k w' = Inr w''
          \<and> textElement w'' = Some (take (nat (charIndex w) + 2) (currentWord w))
          \<and> charIndex w'' = charIndex w + 2"
      if k: "k < length (timeouts w')" "fst (timeouts w' ! k) = CallAnimate" "\<not> isDeleting w'" for k
    proof -
      let ?v = "w'\<lparr>timeouts := take k (timeouts w') @ drop (Suc k) (timeouts w')\<rparr>"
      from rw k have v: "ready ?v" "\<not> isDeleting ?v" by simp_all
      from k have "fire k w' = animate ?v" by (simp add: fire_def)
      with animate_typing [OF v] w' rw t(2) show ?thesis
        by (simp add: nat_add_distrib)
    qed
    with w' show ?thesis by blast
  qed
  from s(1,2) st same typing show ?thesis by blast
qed

theorem stop_start_resumes_witness:
  "textElement (run [Fire 0, Fire 0] (construct (host ''Rust'') no_options 1024)) = Some (js ''Ru'')
   \<and> charIndex (run [Fire 0, Fire 0] (construct (host ''Rust'') no_options 1024)) = 2
   \<and> (\<exists>w'. start (stop (run [Fire 0, Fire 0] (construct (host ''Rust'') no_options 1024))) = Inr w'
         \<and> textElement w' = Some (js ''Rus'') \<and> charIndex w' = 3
         \<and> (\<exists>w''. fire 0 w' = Inr w'' \<and> textElement w'' = Some (js ''Rust'')))"
proof -
  define a where "a = run [Fire 0, Fire 0] (construct (host ''Rust'') no_options 1024)"
  have a: "ready a" "\<not> isDeleting a" "0 \<le> charIndex a" "charIndex a < int (length (currentWord a))"
    "charIndex a = 2" "currentWord a = js ''Rust''" "textElement a = Some (js ''Ru'')"
    by (simp_all add: a_def eval_defs ready_def currentWord_def)
  have tk: "take 3 (js ''Rust'') = js ''Rus''" "take 4 (js ''Rust'') = js ''Rust''"
    "length (js ''Rust'') = 4"
    by (simp_all add: js_def)
  from stop_start_resumes [OF a(1)] a(2-4) obtain w' where w': "start (stop a) = Inr w'"
    "textElement w' = Some (take (nat (charIndex a) + 1) (currentWord a))"
    "charIndex w' = charIndex a + 1"
    "isDeleting w' = isDeleting (after (animate a))"
    "\<forall>k<length (timeouts w').
        fst (timeouts w' ! k) = CallAnimate \<and> \<not> isDeleting w'
        \<longrightarrow> (\<exists>w''. fire k w' = Inr w''
               \<and> textElement w'' = Some (take (nat (charIndex a) + 2) (currentWord a))
               \<and> charIndex w'' = charIndex a + 2)"
    by blast
  have tm: "0 < length (timeouts w')" "fst (timeouts w' ! 0) = CallAnimate"
    using w'(1) by (auto simp: a_def eval_defs)
  have nd: "\<not> isDeleting w'"
    unfolding w'(4) using a tk by (simp add: after_animate)
  from w'(5) tm nd obtain w'' where "fire 0 w' = Inr w''"
    "textElement w'' = Some (take (nat (charIndex a) + 2) (currentWord a))"
    by blast
  with w' a tk show ?thesis unfolding a_def [symmetric] by simp
qed

section \<open>Construction without the required children\<close>

lemma construct_inert:
  "textNode e = None \<or> \<not> cursorNode e \<Longrightarrow> construct e ov width = inert e ov width"
  by (auto simp: construct_def inert_def Let_def)

lemma inert_untouched:
  assumes "untouched (inert e ov width) w"
  shows "timeouts w = []" "\<not> isRunning w" "\<not> listening w" "animationId w = None"
    "\<not> resizeHandler w"
proof -
  from assms have w: "w = (inert e ov width)\<lparr>classList := classList w, srNodes := srNodes w,
      innerWidth := innerWidth w\<rparr>"
    by (simp add: untouched_def)
  show "timeouts w = []" "\<not> isRunning w" "\<not> listening w" "animationId w = None"
    "\<not> resizeHandler w"
    by (subst w, simp add: inert_def)+
qed

lemma untouched_update:
  assumes "untouched w0 w"
  shows "untouched w0 (w\<lparr>classList := c\<rparr>)" "untouched w0 (w\<lparr>srNodes := n\<rparr>)"
    "untouched w0 (w\<lparr>innerWidth := x\<rparr>)"
    "untouched w0 (w\<lparr>srNodes := n, classList := c\<rparr>)"
proof -
  from assms have w: "w = w0\<lparr>classList := classList w, srNodes := srNodes w,
      innerWidth := innerWidth w\<rparr>"
    by (simp add: untouched_def)
  show "untouched w0 (w\<lparr>classList := c\<rparr>)" "untouched w0 (w\<lparr>srNodes := n\<rparr>)"
    "untouched w0 (w\<lparr>innerWidth := x\<rparr>)"
    "untouched w0 (w\<lparr>srNodes := n, classList := c\<rparr>)"
    unfolding untouched_def by (subst w, simp)+
qed

lemma inert_stop:
  assumes "untouched (inert e ov width) w"
  shows "stop w = w\<lparr>classList := classList w - {''typewriter-active''}\<rparr>"
proof -
  note f = inert_untouched [OF assms]
  have "w\<lparr>isRunning := False\<rparr> = w" using f(2) by simp
  then show ?thesis using f(4) by (simp add: stop_def Let_def)
qed

lemma inert_destroy:
  assumes "untouched (inert e ov width) w"
  shows "untouched (inert e ov width) (after (destroy w))"
    and "srNodes w = [] \<Longrightarrow> \<exists>w'. destroy w = Inr w' \<and> srNodes w' = []"
proof -
  note f = inert_untouched [OF assms]
  let ?s = "w\<lparr>classList := classList w - {''typewriter-active''}\<rparr>"
  have u: "untouched (inert e ov width) ?s"
    by (rule untouched_update(1) [OF assms])
  have d: "destroy w =
     (case srNodes w of
        [] \<Rightarrow> Inr (?s\<lparr>classList := classList ?s
                       - {''typewriter-active'', ''typewriter-initialized''}\<rparr>)
      | DirectChild # rest \<Rightarrow>
          Inr (?s\<lparr>srNodes := rest,
                  classList := classList ?s
                    - {''typewriter-active'', ''typewriter-initialized''}\<rparr>)
      | Nested # rest \<Rightarrow> Inl (NotFoundError, ?s))"
    using f(5) by (simp add: destroy_def inert_stop [OF assms] Let_def)
  show "untouched (inert e ov width) (after (destroy w))"
    unfolding d using u untouched_update(1,4) [OF u]
    by (simp split: list.splits srnode.splits)
  show "\<exists>w'. destroy w = Inr w' \<and> srNodes w' = []" if "srNodes w = []"
    unfolding d using that by simp
qed

lemma inert_step:
  assumes "untouched (inert e ov width) w" "ev \<noteq> Start"
  shows "untouched (inert e ov width) (after (step ev w))"
    and "ev \<noteq> Destroy \<Longrightarrow> \<exists>w'. step ev w = Inr w' \<and> srNodes w' = srNodes w"
    and "srNodes w = [] \<Longrightarrow> \<exists>w'. step ev w = Inr w' \<and> srNodes w' = []"
proof -
  note f = inert_untouched [OF assms(1)]
  have other: "untouched (inert e ov width) (after (step ev w))
      \<and> (\<exists>w'. step ev w = Inr w' \<and> srNodes w' = srNodes w)" if "ev \<noteq> Destroy"
  proof (cases ev)
    case (Fire k)
    with f assms(1) show ?thesis by (simp add: fire_def)
  next
    case (Resize x)
    with f untouched_update(3) [OF assms(1), of x] show ?thesis by (simp add: Let_def)
  next
    case Start
    with assms(2) show ?thesis by simp
  next
    case Stop
    with untouched_update(1) [OF assms(1)] show ?thesis
      by (simp add: inert_stop [OF assms(1)])
  next
    case Destroy
    with that show ?thesis by simp
  qed
  show "untouched (inert e ov width) (after (step ev w))"
    using other inert_destroy(1) [OF assms(1)] by (cases "ev = Destroy") simp_all
  show "\<exists>w'. step ev w = Inr w' \<and> srNodes w' = srNodes w" if "ev \<noteq> Destroy"
    using other that by blast
  show "\<exists>w'. step ev w = Inr w' \<and> srNodes w' = []" if "srNodes w = []"
    using other inert_destroy(2) [OF assms(1) that] that by (cases "ev = Destroy") auto
qed

lemma inert_run:
  assumes "untouched (inert e ov width) w" "Start \<notin> set es"
  shows "untouched (inert e ov width) (run es w)"
    and "Destroy \<notin> set es \<Longrightarrow> srNodes (run es w) = srNodes w"
    and "srNodes w = [] \<Longrightarrow> srNodes (run es w) = []"
  using assms
proof (induction es arbitrary: w)
  case Nil
  {
    case 1 then show ?case by simp
  next
    case 2 then show ?case by simp
  next
    case 3 then show ?case by simp
  }
next
  case (Cons ev es)
  {
    case 1
    then have "ev \<noteq> Start" "Start \<notin> set es" by auto
    with inert_step(1) [OF 1(1)] Cons.IH(1) show ?case by simp
  next
    case 2
    then have ne: "ev \<noteq> Start" "Start \<notin> set es" "ev \<noteq> Destroy" "Destroy \<notin> set es" by auto
    from inert_step(2) [OF 2(2) ne(1) ne(3)] obtain w' where
      w': "step ev w = Inr w'" "srNodes w' = srNodes w" by blast
    from inert_step(1) [OF 2(2) ne(1)] w' have "untouched (inert e ov width) w'" by simp
    from Cons.IH(2) [OF ne(4) this ne(2)] w' show ?case by simp
  next
    case 3
    then have ne: "ev \<noteq> Start" "Start \<notin> set es" by auto
    from inert_step(3) [OF 3(2) ne(1) 3(1)] obtain w' where
      w': "step ev w = Inr w'" "srNodes w' = []" by blast
    from inert_step(1) [OF 3(2) ne(1)] w' have "untouched (inert e ov width) w'" by simp
    from Cons.IH(3) [OF w'(2) this ne(2)] w' show ?case by simp
  }
qed

text \<open>
  Claim C8, as the code has it.  If the text child or the cursor child is missing,
  construction returns normally, logs one warning and skips \<open>init\<close>: no timeout is
  pending, the widget is not running, no resize listener is attached and the text is
  untouched.  As long as nobody calls \<open>start\<close> on the instance, no sequence of timer
  firings, resizes, \<open>stop\<close> and \<open>destroy\<close> calls changes anything but the host's class list,
  the \<^verbatim>\<open>.sr-only\<close> elements below the host and the recorded window width.  Timer firings,
  resizes and \<open>stop\<close> never fault and leave the \<^verbatim>\<open>.sr-only\<close> elements alone.  When the
  host has no \<^verbatim>\<open>.sr-only\<close> element of its own, \<open>destroy\<close> does not fault either and
  there is still none afterwards.
\<close>

theorem inert_construction:
  assumes "textNode e = None \<or> \<not> cursorNode e" and "Start \<notin> set es"
  shows "console (construct e ov width) = [''Typewriter: Required elements not found'']
       \<and> timeouts (construct e ov width) = []
       \<and> \<not> isRunning (construct e ov width)
       \<and> \<not> listening (construct e ov width)
       \<and> textElement (construct e ov width) = textNode e
       \<and> srNodes (construct e ov width) = srOnly e
       \<and> untouched (construct e ov width) (run es (construct e ov width))
       \<and> (Destroy \<notin> set es \<longrightarrow> srNodes (run es (construct e ov width)) = srOnly e)
       \<and> (\<forall>ev. ev \<noteq> Start \<and> ev \<noteq> Destroy
             \<longrightarrow> (\<exists>w'. step ev (run es (construct e ov width)) = Inr w'
                    \<and> srNodes w' = srNodes (run es (construct e ov width))))
       \<and> (srOnly e = []
             \<longrightarrow> srNodes (run es (construct e ov width)) = []
               \<and> (\<exists>w'. step Destroy (run es (construct e ov width)) = Inr w'
                     \<and> srNodes w' = []))"
proof -
  note c = construct_inert [OF assms(1), of ov width]
  let ?W = "inert e ov width"
  have u0: "untouched ?W ?W"
    by (simp add: untouched_def)
  have sr: "srNodes ?W = srOnly e" by (simp add: inert_def)
  note r = inert_run [OF u0 assms(2)]
  have a: "Destroy \<notin> set es \<longrightarrow> srNodes (run es ?W) = srOnly e"
    using r(2) sr by simp
  have b: "\<forall>ev. ev \<noteq> Start \<and> ev \<noteq> Destroy
             \<longrightarrow> (\<exists>w'. step ev (run es ?W) = Inr w' \<and> srNodes w' = srNodes (run es ?W))"
    using inert_step(2) [OF r(1)] by blast
  have d: "srOnly e = [] \<longrightarrow> srNodes (run es ?W) = []
               \<and> (\<exists>w'. step Destroy (run es ?W) = Inr w' \<and> srNodes w' = [])"
  proof
    assume "srOnly e = []"
    with sr have "srNodes ?W = []" by simp
    from r(3) [OF this] have n: "srNodes (run es ?W) = []" .
    from inert_step(3) [OF r(1) _ n, of Destroy] n
    show "srNodes (run es ?W) = []
               \<and> (\<exists>w'. step Destroy (run es ?W) = Inr w' \<and> srNodes w' = [])"
      by simp
  qed
  have fields: "console ?W = [''Typewriter: Required elements not found'']"
    "timeouts ?W = []" "\<not> isRunning ?W" "\<not> listening ?W" "textElement ?W = textNode e"
    by (simp_all add: inert_def)
  from fields sr r(1) a b d show ?thesis unfolding c by blast
qed

theorem inert_construction_witness:
  "console (construct ((host ''Hi'')\<lparr>textNode := None\<rparr>) no_options 1024)
     = [''Typewriter: Required elements not found'']
   \<and> untouched (construct ((host ''Hi'')\<lparr>textNode := None\<rparr>) no_options 1024)
        (run [Fire 0, Resize 500, Stop, Destroy]
           (construct ((host ''Hi'')\<lparr>textNode := None\<rparr>) no_options 1024))
   \<and> srNodes (run [Fire 0, Resize 500, Stop]
           (construct ((host ''Hi'')\<lparr>textNode := None, srOnly := [Nested]\<rparr>) no_options 1024))
       = [Nested]
   \<and> (\<exists>w'. step Stop (run [Fire 0, Resize 500, Stop, Destroy]
           (construct ((host ''Hi'')\<lparr>textNode := None\<rparr>) no_options 1024)) = Inr w')
   \<and> (\<exists>w'. step Destroy (run [Fire 0, Resize 500, Stop, Destroy]
           (construct ((host ''Hi'')\<lparr>textNode := None\<rparr>) no_options 1024)) = Inr w'
         \<and> srNodes w' = [])"
proof -
  have h: "textNode ((host ''Hi'')\<lparr>textNode := None\<rparr>) = None
           \<or> \<not> cursorNode ((host ''Hi'')\<lparr>textNode := None\<rparr>)"
    "textNode ((host ''Hi'')\<lparr>textNode := None, srOnly := [Nested]\<rparr>) = None
           \<or> \<not> cursorNode ((host ''Hi'')\<lparr>textNode := None, srOnly := [Nested]\<rparr>)"
    by simp_all
  have n: "Start \<notin> set [Fire 0, Resize 500, Stop, Destroy]"
    "Start \<notin> set [Fire 0, Resize 500, Stop]" "Destroy \<notin> set [Fire 0, Resize 500, Stop]"
    "Stop \<noteq> Start \<and> Stop \<noteq> Destroy"
    by simp_all
  have e: "srOnly ((host ''Hi'')\<lparr>textNode := None\<rparr>) = []"
    "srOnly ((host ''Hi'')\<lparr>textNode := None, srOnly := [Nested]\<rparr>) = [Nested]"
    by (simp_all add: host_def)
  from inert_construction [OF h(1) n(1), of no_options 1024]
    inert_construction [OF h(2) n(2), of no_options 1024] n(3,4) e
  show ?thesis by auto
qed

text \<open>
  Claim C8 as stated fails.  \<open>start\<close> has no guard for such an instance: with the text
  child missing it marks the widget running, adds the active class and then throws a
  \<^verbatim>\<open>TypeError\<close>; with only the cursor child missing it runs the animation and renders
  the first character.  \<open>destroy\<close> looks for any \<^verbatim>\<open>.sr-only\<close> element below the host,
  though the instance never appended one: when the page's own first such element is
  nested deeper, \<open>destroy\<close> throws a \<^verbatim>\<open>NotFoundError\<close>; when it is a direct child,
  \<open>destroy\<close> removes it from the page.
\<close>

theorem inert_start_unguarded:
  "\<not> isRunning (construct ((host ''Hi'')\<lparr>textNode := None\<rparr>) no_options 1024)
   \<and> start (construct ((host ''Hi'')\<lparr>textNode := None\<rparr>) no_options 1024)
       = Inl (TypeError, (construct ((host ''Hi'')\<lparr>textNode := None\<rparr>) no_options 1024)
               \<lparr>isRunning := True,
                classList := {''typewriter-active'', ''typewriter-container''}\<rparr>)
   \<and> textElement (after (start
        (construct ((host ''Hi'')\<lparr>cursorNode := False\<rparr>) no_options 1024))) = Some (js ''H'')
   \<and> isRunning (after (start
        (construct ((host ''Hi'')\<lparr>cursorNode := False\<rparr>) no_options 1024)))
   \<and> destroy (construct ((host ''Hi'')\<lparr>textNode := None, srOnly := [Nested]\<rparr>) no_options 1024)
       = Inl (NotFoundError,
              construct ((host ''Hi'')\<lparr>textNode := None, srOnly := [Nested]\<rparr>) no_options 1024)
   \<and> srNodes (construct ((host ''Hi'')\<lparr>textNode := None, srOnly := [DirectChild]\<rparr>)
        no_options 1024) = [DirectChild]
   \<and> srNodes (after (destroy
        (construct ((host ''Hi'')\<lparr>textNode := None, srOnly := [DirectChild]\<rparr>)
           no_options 1024))) = []"
  by (simp add: eval_defs insert_commute)

section \<open>Truncation and restoration of the word list\<close>

lemma truncateWord_long:
  assumes "of_nat (length x) > m"
  shows "truncateWord m x = take (nat \<lfloor>m\<rfloor>) x @ ellipsis"
    and "of_nat (length (truncateWord m x)) > m"
    and "take (nat \<lfloor>m\<rfloor>) (truncateWord m x) = take (nat \<lfloor>m\<rfloor>) x"
proof -
  show t: "truncateWord m x = take (nat \<lfloor>m\<rfloor>) x @ ellipsis"
    using assms by (simp add: truncateWord_def substring0_def)
  have le: "nat \<lfloor>m\<rfloor> \<le> length x"
  proof -
    from assms have "\<lfloor>m\<rfloor> < int (length x)" by (simp add: floor_less_iff)
    then show ?thesis by simp
  qed
  then have len: "length (truncateWord m x) = nat \<lfloor>m\<rfloor> + 3"
    unfolding t by (simp add: ellipsis_def)
  have "m < of_int \<lfloor>m\<rfloor> + 1" by linarith
  also have "(of_int \<lfloor>m\<rfloor> :: rat) + 1 \<le> of_int (int (nat \<lfloor>m\<rfloor>)) + 1"
    by simp
  also have "\<dots> < of_nat (nat \<lfloor>m\<rfloor> + 3)" by simp
  finally show "of_nat (length (truncateWord m x)) > m"
    unfolding len .
  show "take (nat \<lfloor>m\<rfloor>) (truncateWord m x) = take (nat \<lfloor>m\<rfloor>) x"
    unfolding t using le by simp
qed

lemma truncateWord_idem: "truncateWord m (truncateWord m x) = truncateWord m x"
proof (cases "of_nat (length x) > m")
  case True
  note l = truncateWord_long [OF True]
  from truncateWord_long(1) [OF l(2)] show ?thesis
    unfolding l(3) l(1) [symmetric] .
next
  case False
  then show ?thesis by (simp add: truncateWord_def)
qed

lemma truncateWord_not_Nil: "x \<noteq> [] \<Longrightarrow> truncateWord m x \<noteq> []"
  by (simp add: truncateWord_def ellipsis_def)

lemma truncateWord_25:
  "length x = 25 \<Longrightarrow> truncateWord 20 x = take 20 x @ js ''...''"
  by (simp add: truncateWord_def substring0_def ellipsis_def js_def)

lemma handleResponsive_words:
  assumes "words_inv orig m w"
  shows "words (handleResponsive w) =
           (if innerWidth w < responsiveBreakpoint (options w)
            then map (truncateWord m) orig else orig)"
    and "innerWidth w < responsiveBreakpoint (options w)
           \<Longrightarrow> originalWords (handleResponsive w) = Some orig"
    and "words_inv orig m (handleResponsive w)"
  using assms
  by (auto simp: words_inv_def handleResponsive_def truncateLongWords_def
      restoreOriginalWords_def adjustTimingForMobile_def adjustTimingForDesktop_def Let_def
      truncateWord_idem split: option.splits)

lemma handleResponsive_idem:
  "handleResponsive (handleResponsive w) = handleResponsive w"
  by (auto simp: handleResponsive_def truncateLongWords_def
      restoreOriginalWords_def adjustTimingForMobile_def adjustTimingForDesktop_def Let_def
      truncateWord_idem split: option.splits)

lemma words_inv_step:
  assumes "words_inv orig m w"
  shows "words_inv orig m (after (step e w))"
proof (rule step_preserves [of "words_inv orig m", OF assms])
  fix v :: widget
  assume "words_inv orig m v"
  then show "words_inv orig m (handleResponsive v)" by (rule handleResponsive_words(3))
qed (simp_all add: words_inv_def after_animate stop_def destroy_def Let_def
      split: option.splits list.splits srnode.splits)

lemma words_inv_construct:
  "words_inv (parseWords (dataset_words e)) (maxWordLength (mergeOptions ov)) (construct e ov width)"
  by (auto simp: words_inv_def construct_def init_def setupResponsive_def setupAccessibility_def
      setTimeout_def handleResponsive_def truncateLongWords_def
      restoreOriginalWords_def adjustTimingForMobile_def adjustTimingForDesktop_def Let_def)

lemma words_inv_run:
  "words_inv (parseWords (dataset_words e)) (maxWordLength (mergeOptions ov))
     (run es (construct e ov width))"
  by (rule run_preserves [where P = "words_inv (parseWords (dataset_words e))
        (maxWordLength (mergeOptions ov))"])
     (rule words_inv_construct, rule words_inv_step)

text \<open>
  Claim C6.  With \<open>maxWordLength = 20\<close> a word of 25 characters is truncated to its first
  20 characters followed by three full stops.  At any state the widget can reach, an
  evaluation of the responsive handler at a mobile width makes the active list the
  truncation of the parsed list (not of an already truncated list) and the cache the
  parsed list itself; an evaluation at a desktop width makes the active list the parsed
  list again.  Evaluating the handler twice in a row gives the same state as once.
\<close>

theorem truncation_roundtrip:
  assumes "maxWordLength (mergeOptions ov) = 20"
  shows "(length x = 25 \<longrightarrow> truncateWord 20 x = take 20 x @ js ''...'')
       \<and> (a < responsiveBreakpoint (options (run es (construct e ov width)))
            \<longrightarrow> words (handleResponsive ((run es (construct e ov width))\<lparr>innerWidth := a\<rparr>))
                  = map (truncateWord 20) (parseWords (dataset_words e))
                \<and> originalWords (handleResponsive ((run es (construct e ov width))\<lparr>innerWidth := a\<rparr>))
                  = Some (parseWords (dataset_words e)))
       \<and> (\<not> b < responsiveBreakpoint (options (run es (construct e ov width)))
            \<longrightarrow> words (handleResponsive ((run es (construct e ov width))\<lparr>innerWidth := b\<rparr>))
                  = parseWords (dataset_words e))
       \<and> handleResponsive (handleResponsive v) = handleResponsive v"
proof -
  let ?W = "run es (construct e ov width)"
  let ?orig = "parseWords (dataset_words e)"
  have "words_inv ?orig 20 ?W"
    using words_inv_run [of e ov es width] assms by simp
  then have inv: "words_inv ?orig 20 (?W\<lparr>innerWidth := c\<rparr>)" for c
    by (simp add: words_inv_def split: option.splits)
  have mob: "words (handleResponsive (?W\<lparr>innerWidth := a\<rparr>)) = map (truncateWord 20) ?orig
         \<and> originalWords (handleResponsive (?W\<lparr>innerWidth := a\<rparr>)) = Some ?orig"
    if "a < responsiveBreakpoint (options ?W)"
    using handleResponsive_words(1,2) [OF inv [of a]] that by simp
  have desk: "words (handleResponsive (?W\<lparr>innerWidth := b\<rparr>)) = ?orig"
    if "\<not> b < responsiveBreakpoint (options ?W)"
    using handleResponsive_words(1) [OF inv [of b]] that by simp
  from mob desk truncateWord_25 [of x] handleResponsive_idem [of v] show ?thesis
    by blast
qed

theorem truncation_roundtrip_witness:
  "maxWordLength (mergeOptions no_options) = 20
   \<and> length (js ''Senior Software Developer'') = 25
   \<and> truncateWord 20 (js ''Senior Software Developer'') = js ''Senior Software Deve...''
   \<and> words (handleResponsive ((run [Fire 0]
        (construct (host ''Senior Software Developer,Dev'') no_options 1024))\<lparr>innerWidth := 500\<rparr>))
       = [js ''Senior Software Deve...'', js ''Dev'']
   \<and> words (handleResponsive ((run [Resize 500, Fire 1, Fire 0]
        (construct (host ''Senior Software Developer,Dev'') no_options 1024))\<lparr>innerWidth := 1024\<rparr>))
       = [js ''Senior Software Developer'', js ''Dev'']"
proof -
  define e where "e = host ''Senior Software Developer,Dev''"
  have m: "maxWordLength (mergeOptions no_options) = 20"
    by (simp add: mergeOptions_def no_options_def)
  have l: "length (js ''Senior Software Developer'') = 25"
    by (simp add: js_def)
  have bp: "responsiveBreakpoint (options (run [Fire 0] (construct e no_options 1024))) = 768"
    "responsiveBreakpoint (options (run [Resize 500, Fire 1, Fire 0] (construct e no_options 1024))) = 768"
    by (simp_all add: e_def eval_defs)
  have orig: "parseWords (dataset_words e) = [js ''Senior Software Developer'', js ''Dev'']"
    by (simp add: e_def eval_defs)
  have tr: "take 20 (js ''Senior Software Developer'') @ js ''...'' = js ''Senior Software Deve...''"
    "truncateWord 20 (js ''Dev'') = js ''Dev''"
    by (simp_all add: js_def truncateWord_def)
  note r1 = truncation_roundtrip [OF m, of "js ''Senior Software Developer''" 500 "[Fire 0]" e 1024]
  note r2 = truncation_roundtrip [OF m, of _ _ "[Resize 500, Fire 1, Fire 0]" e 1024 1024]
  from r1 l tr have t: "truncateWord 20 (js ''Senior Software Developer'') = js ''Senior Software Deve...''"
    by simp
  from r1 bp(1) have "words (handleResponsive ((run [Fire 0] (construct e no_options 1024))\<lparr>innerWidth := 500\<rparr>))
       = map (truncateWord 20) (parseWords (dataset_words e))"
    by simp
  then have a: "words (handleResponsive ((run [Fire 0] (construct e no_options 1024))\<lparr>innerWidth := 500\<rparr>))
       = [js ''Senior Software Deve...'', js ''Dev'']"
    unfolding orig using t tr(2) by simp
  from r2 bp(2) have "words (handleResponsive ((run [Resize 500, Fire 1, Fire 0]
        (construct e no_options 1024))\<lparr>innerWidth := 1024\<rparr>)) = parseWords (dataset_words e)"
    by simp
  then have b: "words (handleResponsive ((run [Resize 500, Fire 1, Fire 0]
        (construct e no_options 1024))\<lparr>innerWidth := 1024\<rparr>))
       = [js ''Senior Software Developer'', js ''Dev'']"
    unfolding orig .
  from m l t a b show ?thesis unfolding e_def by blast
qed

section \<open>Bounds of the animation state\<close>

lemma handleResponsive_frame [simp]:
  "currentIndex (handleResponsive w) = currentIndex w"
  "charIndex (handleResponsive w) = charIndex w"
  "isDeleting (handleResponsive w) = isDeleting w"
  "innerWidth (handleResponsive w) = innerWidth w"
  "responsiveBreakpoint (options (handleResponsive w)) = responsiveBreakpoint (options w)"
  "length (words (handleResponsive w)) =
     (case originalWords w of
        None \<Rightarrow> length (words w)
      | Some ows \<Rightarrow> if innerWidth w < responsiveBreakpoint (options w)
                    then length (words w) else length ows)"
  by (simp_all add: handleResponsive_def truncateLongWords_def restoreOriginalWords_def
      adjustTimingForMobile_def adjustTimingForDesktop_def Let_def split: option.splits)

lemma index_inv_handleResponsive: "index_inv w \<Longrightarrow> index_inv (handleResponsive w)"
  by (auto simp: index_inv_def handleResponsive_def truncateLongWords_def restoreOriginalWords_def
      adjustTimingForMobile_def adjustTimingForDesktop_def Let_def split: option.splits)

lemma index_inv_animate: "index_inv w \<Longrightarrow> index_inv (after (animate w))"
  by (auto simp: index_inv_def after_animate ready_def split: option.splits)

lemma index_inv_step:
  assumes "index_inv w"
  shows "index_inv (after (step e w))"
proof (rule step_preserves [of index_inv, OF assms])
  fix v :: widget
  assume v: "index_inv v"
  then show "index_inv (handleResponsive v)" by (rule index_inv_handleResponsive)
  from v show "index_inv (after (animate v))" by (rule index_inv_animate)
qed (simp_all add: index_inv_def stop_def destroy_def Let_def
      split: option.splits list.splits srnode.splits)

lemma parseWords_no_Nil: "[] \<notin> set (parseWords d)"
  using parseWords_words [of "[]" d] by blast

lemma index_inv_construct: "index_inv (construct e ov width)"
proof (cases "textNode e = None \<or> \<not> cursorNode e")
  case True
  then show ?thesis by (simp add: construct_inert inert_def index_inv_def)
next
  case False
  then have "construct e ov width = init
     \<lparr> words = parseWords (dataset_words e), originalWords = None, currentIndex = 0,
       charIndex = 0, isDeleting = False, isRunning = False, animationId = None,
       resizeHandler = False, options = mergeOptions ov, textElement = textNode e,
       cursorElement = cursorNode e, timeouts = [], frames = 0, listening = False,
       srNodes = srOnly e, classList = classes e, console = [], innerWidth = width \<rparr>"
    by (intro construct_initialised) simp_all
  then show ?thesis
    by (auto simp: index_inv_def init_def setupResponsive_def setupAccessibility_def
        setTimeout_def handleResponsive_def truncateLongWords_def restoreOriginalWords_def
        adjustTimingForMobile_def adjustTimingForDesktop_def Let_def)
qed

lemma index_in_range:
  "words (run es (construct e ov width)) \<noteq> []
   \<Longrightarrow> currentIndex (run es (construct e ov width)) < length (words (run es (construct e ov width)))"
proof -
  have "index_inv (run es (construct e ov width))"
    by (rule run_preserves [where P = index_inv]) (rule index_inv_construct, rule index_inv_step)
  then show "words (run es (construct e ov width)) \<noteq> []
   \<Longrightarrow> currentIndex (run es (construct e ov width)) < length (words (run es (construct e ov width)))"
    by (simp add: index_inv_def)
qed

lemma char_inv_animate:
  assumes "char_inv w" "index_inv w"
  shows "char_inv (after (animate w))"
proof (cases "ready w")
  case False
  with assms show ?thesis by (simp add: after_animate)
next
  case True
  then have i: "currentIndex w < length (words w)" "words w \<noteq> []"
    by (auto simp: ready_def)
  show ?thesis
  proof (cases "isDeleting w")
    case False
    with True assms i show ?thesis
      by (auto simp: after_animate char_inv_def currentWord_def)
  next
    case del: True
    show ?thesis
    proof (cases "charIndex w - 1 = 0")
      case False
      with True del assms i show ?thesis
        by (auto simp: after_animate char_inv_def currentWord_def)
    next
      case last: True
      let ?j = "(currentIndex w + 1) mod length (words w)"
      from i have j: "?j < length (words w)" by simp
      with assms(1) have "words w ! ?j \<noteq> []"
        by (metis char_inv_def nth_mem)
      with True del last assms i show ?thesis
        by (simp add: after_animate char_inv_def currentWord_def)
    qed
  qed
qed

lemma settled_words:
  "settled mobile bp w \<Longrightarrow> words (handleResponsive w) = words w"
  by (simp add: settled_def)

lemma settled_handleResponsive: "settled mobile bp w \<Longrightarrow> settled mobile bp (handleResponsive w)"
  by (simp add: settled_def handleResponsive_idem)

lemma settled_width:
  assumes "settled mobile bp w" "(x < bp) = mobile"
  shows "settled mobile bp (w\<lparr>innerWidth := x\<rparr>)"
  using assms
  by (auto simp: settled_def handleResponsive_def truncateLongWords_def restoreOriginalWords_def
      adjustTimingForMobile_def adjustTimingForDesktop_def Let_def split: option.splits)

lemma settled_frame:
  assumes "words v = words w" "originalWords v = originalWords w" "options v = options w"
    "innerWidth v = innerWidth w"
  shows "settled mobile bp v = settled mobile bp w"
  using assms
  by (auto simp: settled_def handleResponsive_def truncateLongWords_def restoreOriginalWords_def
      adjustTimingForMobile_def adjustTimingForDesktop_def Let_def split: option.splits)

lemma char_inv_frame:
  assumes "words v = words w" "currentIndex v = currentIndex w" "charIndex v = charIndex w"
    "isDeleting v = isDeleting w"
  shows "char_inv v = char_inv w"
  using assms by (simp add: char_inv_def currentWord_def)

lemma index_inv_frame:
  assumes "words v = words w" "currentIndex v = currentIndex w" "originalWords v = originalWords w"
  shows "index_inv v = index_inv w"
  using assms by (simp add: index_inv_def split: option.splits)

lemma steady_frame:
  assumes "words v = words w" "originalWords v = originalWords w" "options v = options w"
    "innerWidth v = innerWidth w" "currentIndex v = currentIndex w" "charIndex v = charIndex w"
    "isDeleting v = isDeleting w"
  shows "steady mobile bp v = steady mobile bp w"
  unfolding steady_def
  using settled_frame [OF assms(1-4)] char_inv_frame [OF assms(1,5,6,7)]
    index_inv_frame [OF assms(1,5,2)] by simp

lemma animate_frame [simp]:
  "words (after (animate w)) = words w"
  "originalWords (after (animate w)) = originalWords w"
  "options (after (animate w)) = options w"
  "innerWidth (after (animate w)) = innerWidth w"
  by (simp_all add: after_animate)

lemma stop_frame [simp]:
  "words (stop w) = words w"
  "originalWords (stop w) = originalWords w"
  "options (stop w) = options w"
  "innerWidth (stop w) = innerWidth w"
  "currentIndex (stop w) = currentIndex w"
  "charIndex (stop w) = charIndex w"
  "isDeleting (stop w) = isDeleting w"
  by (simp_all add: stop_def Let_def split: option.splits)

lemma destroy_frame [simp]:
  "words (after (destroy w)) = words w"
  "originalWords (after (destroy w)) = originalWords w"
  "options (after (destroy w)) = options w"
  "innerWidth (after (destroy w)) = innerWidth w"
  "currentIndex (after (destroy w)) = currentIndex w"
  "charIndex (after (destroy w)) = charIndex w"
  "isDeleting (after (destroy w)) = isDeleting w"
  by (simp_all add: destroy_def Let_def split: list.splits srnode.splits)

lemma steady_step:
  assumes "steady mobile bp w" "\<And>x. e = Resize x \<Longrightarrow> (x < bp) = mobile"
  shows "steady mobile bp (after (step e w))"
proof (rule step_preserves [of "steady mobile bp", OF assms(1)])
  fix v :: widget
  assume v: "steady mobile bp v"
  show "steady mobile bp (v\<lparr>timeouts := ts\<rparr>)" for ts
    using v by (simp add: steady_frame [of "v\<lparr>timeouts := ts\<rparr>" v])
  show "steady mobile bp (after (animate v))"
    using v settled_frame [of "after (animate v)" v mobile bp]
    by (simp add: steady_def char_inv_animate index_inv_animate)
  show "steady mobile bp (v\<lparr>isRunning := True,
          classList := insert ''typewriter-active'' (classList v)\<rparr>)"
    using v by (simp add: steady_frame [of "v\<lparr>isRunning := True,
          classList := insert ''typewriter-active'' (classList v)\<rparr>" v])
  show "steady mobile bp (handleResponsive v)"
    using v settled_words [of mobile bp v]
    by (simp add: steady_def settled_handleResponsive index_inv_handleResponsive
        char_inv_frame [of "handleResponsive v" v])
  show "steady mobile bp (v\<lparr>innerWidth := x\<rparr>)" if "e = Resize x" for x
    using v assms(2) [OF that] settled_width [of mobile bp v x]
    by (simp add: steady_def char_inv_frame [of "v\<lparr>innerWidth := x\<rparr>" v]
        index_inv_frame [of "v\<lparr>innerWidth := x\<rparr>" v])
  show "steady mobile bp (stop v)"
    using v by (simp add: steady_frame [of "stop v" v])
  show "steady mobile bp (after (destroy v))"
    using v by (simp add: steady_frame [of "after (destroy v)" v])
qed

lemma steady_construct:
  assumes "textNode e \<noteq> None" "cursorNode e"
  shows "steady (width < responsiveBreakpoint (mergeOptions ov))
           (responsiveBreakpoint (mergeOptions ov)) (construct e ov width)"
proof -
  let ?pre = "\<lparr> words = parseWords (dataset_words e), originalWords = None, currentIndex = 0,
       charIndex = 0, isDeleting = False, isRunning = False, animationId = None,
       resizeHandler = True, options = mergeOptions ov, textElement = textNode e,
       cursorElement = cursorNode e, timeouts = [], frames = 0, listening = True,
       srNodes = srOnly e @ [DirectChild], classList = classes e, console = [],
       innerWidth = width \<rparr>"
  let ?W = "construct e ov width"
  have c: "?W = setTimeout CallStart 300 (handleResponsive ?pre)"
    unfolding construct_initialised [OF assms]
    by (simp add: init_def setupResponsive_def setupAccessibility_def)
  have fr: "words ?W = words (handleResponsive ?pre)"
    "originalWords ?W = originalWords (handleResponsive ?pre)"
    "options ?W = options (handleResponsive ?pre)"
    "innerWidth ?W = innerWidth (handleResponsive ?pre)"
    "currentIndex ?W = 0" "charIndex ?W = 0" "\<not> isDeleting ?W"
    unfolding c setTimeout_def by simp_all
  have s0: "settled (width < responsiveBreakpoint (mergeOptions ov))
      (responsiveBreakpoint (mergeOptions ov)) (handleResponsive ?pre)"
    by (simp add: settled_def handleResponsive_idem)
  have s: "settled (width < responsiveBreakpoint (mergeOptions ov))
      (responsiveBreakpoint (mergeOptions ov)) ?W"
    using s0 settled_frame [OF fr(1-4)] by simp
  have "index_inv ?pre" by (simp add: index_inv_def)
  then have "index_inv (handleResponsive ?pre)" by (rule index_inv_handleResponsive)
  then have i: "index_inv ?W"
    using fr by (simp add: index_inv_def split: option.splits)
  have "words ?W = parseWords (dataset_words e)
        \<or> words ?W = map (truncateWord (maxWordLength (mergeOptions ov))) (parseWords (dataset_words e))"
    using words_inv_construct [of e ov width] by (auto simp: words_inv_def split: option.splits)
  then have ne: "[] \<notin> set (words ?W)"
    using parseWords_no_Nil [of "dataset_words e"] truncateWord_not_Nil
    by (metis (no_types, lifting) imageE list.set_map)
  then have "words ?W \<noteq> [] \<Longrightarrow> words ?W ! 0 \<noteq> []"
    by (metis length_greater_0_conv nth_mem)
  with ne fr have "char_inv ?W"
    by (auto simp: char_inv_def currentWord_def)
  with s i show ?thesis by (simp add: steady_def)
qed

lemma charIndex_bounded_in_fixed_mode:
  assumes "textNode e \<noteq> None" "cursorNode e"
    and "\<forall>x. Resize x \<in> set es \<longrightarrow>
           (x < responsiveBreakpoint (mergeOptions ov))
           = (width < responsiveBreakpoint (mergeOptions ov))"
  shows "0 \<le> charIndex (run es (construct e ov width))
       \<and> (words (run es (construct e ov width)) \<noteq> []
            \<longrightarrow> currentIndex (run es (construct e ov width))
                  < length (words (run es (construct e ov width)))
                \<and> charIndex (run es (construct e ov width))
                  \<le> int (length (currentWord (run es (construct e ov width)))))"
proof -
  let ?bp = "responsiveBreakpoint (mergeOptions ov)"
  have "steady (width < ?bp) ?bp (run es (construct e ov width))"
  proof (rule run_preserves [where P = "steady (width < ?bp) ?bp"])
    show "steady (width < ?bp) ?bp (construct e ov width)"
      by (rule steady_construct [OF assms(1,2)])
  next
    fix v ev
    assume "steady (width < ?bp) ?bp v" "ev \<in> set es"
    with assms(3) show "steady (width < ?bp) ?bp (after (step ev v))"
      by (intro steady_step) auto
  qed
  then show ?thesis
    by (auto simp: steady_def char_inv_def index_inv_def split: if_splits)
qed

lemma typing_never_ends:
  "ready w \<Longrightarrow> \<not> isDeleting w \<Longrightarrow> int (length (currentWord w)) \<le> charIndex w
   \<Longrightarrow> timeouts w = [(CallAnimate, d)]
   \<Longrightarrow> \<exists>w'. ticks n w = Inr w' \<and> isRunning w' \<and> \<not> isDeleting w'
          \<and> currentIndex w' = currentIndex w \<and> words w' = words w
          \<and> charIndex w' = charIndex w + int n
          \<and> map fst (timeouts w') = [CallAnimate]
          \<and> (0 < n \<longrightarrow> textElement w' = Some (currentWord w))"
proof (induction n arbitrary: w d)
  case 0
  then show ?case by (simp add: ready_def)
next
  case (Suc n)
  let ?d = "calculateTypingSpeed (options w) (currentWord w) (charIndex w + 1)"
  let ?w1 = "w\<lparr>textElement := Some (take (nat (charIndex w + 1)) (currentWord w)),
      charIndex := charIndex w + 1,
      timeouts := [(CallAnimate, ?d)],
      animationId := Some (Suc (frames w)),
      frames := Suc (frames w)\<rparr>"
  from Suc.prems have r: "ready (w\<lparr>timeouts := []\<rparr>)" "\<not> isDeleting (w\<lparr>timeouts := []\<rparr>)"
    by simp_all
  from animate_typing [OF r] Suc.prems have step1: "fire 0 w = Inr ?w1"
    by (simp add: fire0_animate)
  from Suc.prems have pre: "ready ?w1" "\<not> isDeleting ?w1"
    "int (length (currentWord ?w1)) \<le> charIndex ?w1" "timeouts ?w1 = [(CallAnimate, ?d)]"
    by (simp_all add: ready_def)
  from Suc.IH [OF pre] obtain w' where ih: "ticks n ?w1 = Inr w' \<and> isRunning w'
      \<and> \<not> isDeleting w' \<and> currentIndex w' = currentIndex ?w1 \<and> words w' = words ?w1
      \<and> charIndex w' = charIndex ?w1 + int n \<and> map fst (timeouts w') = [CallAnimate]
      \<and> (0 < n \<longrightarrow> textElement w' = Some (currentWord ?w1))"
    by (rule exE)
  then have w': "ticks n ?w1 = Inr w'" "isRunning w'" "\<not> isDeleting w'"
    "currentIndex w' = currentIndex w" "words w' = words w"
    "charIndex w' = charIndex w + 1 + int n" "map fst (timeouts w') = [CallAnimate]"
    "0 < n \<longrightarrow> textElement w' = Some (currentWord w)"
    by simp_all
  have full: "take (nat (charIndex w + 1)) (currentWord w) = currentWord w"
    using Suc.prems(3) by simp
  have "textElement w' = Some (currentWord w)"
  proof (cases n)
    case 0
    with w'(1) full show ?thesis by auto
  next
    case (Suc m)
    with w'(8) show ?thesis by simp
  qed
  with w' step1 show ?case by simp
qed

text \<open>
  Claim C4 against the code.  The current index stays inside the list on every run
  (\<open>index_in_range\<close>), and \<open>charIndex\<close> stays inside the current word as long as the
  window stays on one side of the breakpoint (\<open>charIndex_bounded_in_fixed_mode\<close>).  A mode
  switch breaks the second bound.  In a desktop window the widget has typed 21 characters
  of the 24-character word \<^verbatim>\<open>Senior Software Engineer\<close> when the window is resized to
  500 px; two more ticks type the 22nd and 23rd character, then the debounced handler runs
  and truncates the word to the 23 characters \<^verbatim>\<open>Senior Software Engi...\<close>; the next tick
  raises \<open>charIndex\<close> to 24, beyond the current word, and the widget is still typing.  From
  there \<open>charIndex\<close> never equals the length again (\<open>typing_never_ends\<close>): a hundred ticks
  later the widget still shows the same text, still types the same word, and \<open>charIndex\<close>
  is 124.
\<close>

theorem charIndex_overruns_after_mode_switch:
  "view (run [Fire 0, Fire 0, Fire 0, Fire 0, Fire 0, Fire 0, Fire 0, Fire 0,
              Fire 0, Fire 0, Fire 0, Fire 0, Fire 0, Fire 0, Fire 0, Fire 0,
              Fire 0, Fire 0, Fire 0, Fire 0, Fire 0,
              Resize 500, Fire 0, Fire 1, Fire 0, Fire 0]
          (construct (host ''Senior Software Engineer'') no_options 1024))
     = (Some (js ''Senior Software Engi...''), 24, False, 0,
        [js ''Senior Software Engi...''], True, [CallAnimate])
   \<and> length (js ''Senior Software Engi...'') = 23
   \<and> view (after (ticks 100
         (run [Fire 0, Fire 0, Fire 0, Fire 0, Fire 0, Fire 0, Fire 0, Fire 0,
               Fire 0, Fire 0, Fire 0, Fire 0, Fire 0, Fire 0, Fire 0, Fire 0,
               Fire 0, Fire 0, Fire 0, Fire 0, Fire 0,
               Resize 500, Fire 0, Fire 1, Fire 0, Fire 0]
            (construct (host ''Senior Software Engineer'') no_options 1024))))
     = (Some (js ''Senior Software Engi...''), 124, False, 0,
        [js ''Senior Software Engi...''], True, [CallAnimate])"
proof -
  define W where "W = run [Fire 0, Fire 0, Fire 0, Fire 0, Fire 0, Fire 0, Fire 0, Fire 0,
               Fire 0, Fire 0, Fire 0, Fire 0, Fire 0, Fire 0, Fire 0, Fire 0,
               Fire 0, Fire 0, Fire 0, Fire 0, Fire 0,
               Resize 500, Fire 0, Fire 1, Fire 0, Fire 0]
          (construct (host ''Senior Software Engineer'') no_options 1024)"
  have v: "view W = (Some (js ''Senior Software Engi...''), 24, False, 0,
                     [js ''Senior Software Engi...''], True, [CallAnimate])"
    by (simp add: W_def eval_defs view_def)
  then have g: "textElement W = Some (js ''Senior Software Engi...'')" "charIndex W = 24"
    "\<not> isDeleting W" "currentIndex W = 0" "words W = [js ''Senior Software Engi...'']"
    "isRunning W" "map fst (timeouts W) = [CallAnimate]"
    by (simp_all add: view_def)
  have len: "length (js ''Senior Software Engi...'') = 23"
    by (simp add: js_def)
  from g have r: "ready W" "currentWord W = js ''Senior Software Engi...''"
    by (simp_all add: ready_def currentWord_def)
  from single_timer [OF g(7)] obtain d where d: "timeouts W = [(CallAnimate, d)]" by blast
  have over: "int (length (currentWord W)) \<le> charIndex W"
    using r(2) g(2) len by simp
  from typing_never_ends [OF r(1) g(3) over d, of 100] obtain w' where
    "ticks 100 W = Inr w' \<and> isRunning w' \<and> \<not> isDeleting w'
      \<and> currentIndex w' = currentIndex W \<and> words w' = words W
      \<and> charIndex w' = charIndex W + int 100
      \<and> map fst (timeouts w') = [CallAnimate]
      \<and> (0 < (100::nat) \<longrightarrow> textElement w' = Some (currentWord W))"
    by (rule exE)
  with g r have "view (after (ticks 100 W))
     = (Some (js ''Senior Software Engi...''), 124, False, 0,
        [js ''Senior Software Engi...''], True, [CallAnimate])"
    by (simp add: view_def)
  with v len show ?thesis unfolding W_def [symmetric] by simp
qed

end
